theory Spec2Isabelle
  imports Main "HOL-Library.AList" "HOL-Library.Char_ord" "HOL-Library.List_Lexorder"
begin

section \<open>Data model\<close>

text \<open>
  The collector of \<^verbatim>\<open>core/collectors.py\<close> and the transporter of
  \<^verbatim>\<open>core/transporters.py\<close> work on the schema objects of \<^verbatim>\<open>core/db_entities.py\<close>
  and on two PostgreSQL connections. Primary-key values are Python ints (or strings); they
  are modelled as \<open>int\<close>.
\<close>

type_synonym pk = int

text \<open>
  The exceptions the two modules raise or let through: the four driver errors they import
  from \<^verbatim>\<open>asyncpg\<close>, and Python's \<^verbatim>\<open>AttributeError\<close> (attribute of \<^verbatim>\<open>None\<close>) and
  \<^verbatim>\<open>KeyError\<close> (missing dict key).
\<close>

datatype error =
    PostgresSyntaxError
  | UndefinedFunctionError
  | UndefinedColumnError
  | NotNullViolationError
  | AttributeError
  | KeyError

datatype ConstraintTypesEnum = PRIMARY_KEY | FOREIGN_KEY | UNIQUE

text \<open>
  \<^verbatim>\<open>DBColumn\<close>. \<open>constraint_table\<close> is the referenced table object or \<^verbatim>\<open>None\<close>; the
  code only ever reads its \<^verbatim>\<open>name\<close>, so the field holds that name.
\<close>

record DBColumn =
  column_name :: string
  data_type :: string
  constraint_table :: "string option"
  constraint_type :: "ConstraintTypesEnum option"

text \<open>
  \<^verbatim>\<open>DBTable\<close>. \<^verbatim>\<open>DstDatabase.tables\<close> maps a table's name to its object, so a table
  object is referred to by its name and the record has no name field. The three column
  lists and \<open>with_key_column\<close> are properties of the class, which is not part of the
  sources: they are taken as given. \<open>need_transfer_pks\<close>,
  \<open>is_ready_for_transferring\<close> and \<open>revert_fk_tables\<close> are what the collector mutates;
  \<open>need_imported\<close> and \<open>transferred_ids\<close> are the two attributes the transporter uses.
\<close>

record DBTable =
  primary_key :: "DBColumn option"
  columns :: "DBColumn list"
  not_self_fk_columns :: "DBColumn list"
  fks_with_key_column :: "DBColumn list"
  unique_foreign_keys_columns :: "DBColumn list"
  with_key_column :: bool
  is_full_transferred :: bool
  is_ready_for_transferring :: bool
  need_transfer_pks :: "pk set"
  revert_fk_tables :: "(string \<times> bool) list"
  need_imported :: "pk set"
  transferred_ids :: "pk set"

text \<open>
  The arguments of one call of \<^verbatim>\<open>SQLRepository.get_table_column_values_sql\<close>: the table
  (its name and the object as it is at the call), the column, and the three optional
  restrictions. \<^verbatim>\<open>where_conditions_columns\<close> is a dict or \<^verbatim>\<open>None\<close>.
\<close>

record query =
  q_table :: string
  q_table_obj :: DBTable
  q_column :: DBColumn
  q_key_column_values :: "pk set"
  q_primary_key_values :: "pk list"
  q_where_conditions_columns :: "(string \<times> pk set) list option"
  q_is_revert :: bool

text \<open>
  What a run leaves behind besides the schema: the log lines the properties below read
  (the other \<^verbatim>\<open>logger\<close> calls, which print counts, are left out), and one
  instrumentation entry \<open>Fetch_call\<close> for every call of \<^verbatim>\<open>_get_table_column_values\<close>,
  which the code itself does not log.
\<close>

datatype 'sql event =
    Debug_sql 'sql
  | Warning_sql error 'sql
  | Warning_attribute
  | Warning_transfer error string 'sql
  | Info_start_collecting string
  | Info_finished_collecting string
  | Info_prepare_revert string
  | Info_start_key_column string
  | Info_finished_key_column string
  | Debug_max_deep
  | Debug_stack "string list"
  | Fetch_call string "DBColumn option" "pk list" "(string \<times> pk set) list option" bool

text \<open>
  The collector's surroundings, fixed during a run: the three settings, the chunk size,
  the seed, the keys of \<^verbatim>\<open>DstDatabase.tables\<close> in dict order, and the collaborators that
  are not part of the sources, taken as parameters: the SQL repository
  (\<open>get_table_column_values_sql\<close>), the source connection (\<open>src_fetch\<close>: the first column of
  every row, \<^verbatim>\<open>None\<close> for NULL, or the driver's exception), the truthiness of a statement
  (\<open>sql_nonempty\<close>), the two content-type catalog queries, the topological sorter (its
  \<^verbatim>\<open>sorted\<close> and \<^verbatim>\<open>cyclic\<close> results), and the order in which Python iterates over a set
  of keys (\<open>iter_pks\<close>) and over a set of names (\<open>iter_names\<close>); for a set of strings
  that order follows the hashes of the strings, so nothing is assumed of it here.
\<close>

record 'sql env =
  KEY_TABLE_NAME :: string
  EXCLUDED_TABLES :: "string list"
  TABLES_WITH_GENERIC_FOREIGN_KEY :: "string list"
  CHUNK_SIZE :: nat
  key_column_values :: "pk set"
  tables :: "string list"
  get_table_column_values_sql :: "query \<Rightarrow> 'sql list"
  sql_nonempty :: "'sql \<Rightarrow> bool"
  src_fetch :: "'sql \<Rightarrow> error + pk option list"
  dst_content_type_table_list :: "error + (string \<times> string \<times> string) list"
  src_content_type_list :: "error + (pk \<times> string \<times> string) list"
  topological_sort :: "(string \<times> string) list \<Rightarrow> string list \<times> string list"
  iter_pks :: "pk set \<Rightarrow> pk list"
  iter_names :: "string set \<Rightarrow> string list"

text \<open>
  The mutable state: the table objects by name, and the collector's
  \<^verbatim>\<open>content_type_table\<close> dict.
\<close>

record state =
  objs :: "string \<Rightarrow> DBTable"
  content_type_table :: "(string \<times> pk) list"

section \<open>Helpers\<close>

text \<open>\<^verbatim>\<open>self._dst_database.tables[name]\<close> and \<^verbatim>\<open>.tables.get(name)\<close>.\<close>

definition tables_getitem :: "'sql env \<Rightarrow> string \<Rightarrow> error + string" where
  "tables_getitem env n = (if n \<in> set (tables env) then Inr n else Inl KeyError)"

definition tables_get :: "'sql env \<Rightarrow> string \<Rightarrow> string option" where
  "tables_get env n = (if n \<in> set (tables env) then Some n else None)"

text \<open>The three in-place mutations of a table object.\<close>

definition update_pks :: "string \<Rightarrow> pk set \<Rightarrow> state \<Rightarrow> state" where
  "update_pks t ids s =
     s\<lparr>objs := (objs s)(t := (objs s t)\<lparr>need_transfer_pks := need_transfer_pks (objs s t) \<union> ids\<rparr>)\<rparr>"

definition set_ready :: "string \<Rightarrow> state \<Rightarrow> state" where
  "set_ready t s =
     s\<lparr>objs := (objs s)(t := (objs s t)\<lparr>is_ready_for_transferring := True\<rparr>)\<rparr>"

definition set_revert :: "string \<Rightarrow> string \<Rightarrow> state \<Rightarrow> state" where
  "set_revert t rev_table_name s =
     s\<lparr>objs := (objs s)(t := (objs s t)\<lparr>revert_fk_tables :=
        AList.update rev_table_name True (revert_fk_tables (objs s t))\<rparr>)\<rparr>"

text \<open>
  \<^verbatim>\<open>coroutines = [f(x) for x in xs]; if coroutines: await asyncio.wait(coroutines)\<close>.
  \<^verbatim>\<open>asyncio.wait\<close> runs every task to its end and returns the sets of done and pending
  tasks; an exception raised in a task stays in the task object and is not raised by
  \<^verbatim>\<open>wait\<close>. The tasks are run here one after the other in list order, each on the state
  the previous one left; their results and exceptions are dropped.
\<close>

fun asyncio_wait ::
  "('x \<Rightarrow> state \<Rightarrow> (error + 'r) \<times> state \<times> 'ev list) \<Rightarrow> 'x list \<Rightarrow> state \<Rightarrow> state \<times> 'ev list" where
  "asyncio_wait f [] s = (s, [])"
| "asyncio_wait f (x # xs) s =
     (case f x s of (_, s1, l1) \<Rightarrow>
        (case asyncio_wait f xs s1 of (s2, l2) \<Rightarrow> (s2, l1 @ l2)))"

text \<open>
  Modelled from the spec: \<^verbatim>\<open>core.helpers.make_chunks\<close> is not part of the sources; the
  spec has the IDs partitioned into chunks of the given size. A size of 0 is outside what
  the spec describes and gives no chunk here.
\<close>

fun make_chunks :: "'a list \<Rightarrow> nat \<Rightarrow> 'a list list" where
  "make_chunks xs n =
     (if xs = [] \<or> n = 0 then [] else take n xs # make_chunks (drop n xs) n)"

declare make_chunks.simps [simp del]

text \<open>
  Modelled from the spec: the methods of \<^verbatim>\<open>DBTable\<close> and \<^verbatim>\<open>DstDatabase\<close> that take
  part (\<^verbatim>\<open>db_entities.py\<close> is not part of the sources). \<open>get_column_by_name\<close> is the
  column of that name, \<^verbatim>\<open>None\<close> when there is none;
  \<open>get_columns_by_constraint_table_name\<close> are the columns that reference the named table
  through a constraint of one of the given types; \<open>tables_with_key_column\<close> and
  \<open>tables_without_generics\<close> are the two derived partitions of the tables.
\<close>

definition get_column_by_name :: "DBTable \<Rightarrow> string \<Rightarrow> DBColumn option" where
  "get_column_by_name t n = find (\<lambda>c. column_name c = n) (columns t)"

definition get_columns_by_constraint_table_name ::
  "DBTable \<Rightarrow> string \<Rightarrow> ConstraintTypesEnum list \<Rightarrow> DBColumn list" where
  "get_columns_by_constraint_table_name t n types =
     filter (\<lambda>c. constraint_table c = Some n \<and>
                 (case constraint_type c of None \<Rightarrow> False | Some ct \<Rightarrow> ct \<in> set types))
            (columns t)"

definition tables_with_key_column :: "'sql env \<Rightarrow> state \<Rightarrow> string list" where
  "tables_with_key_column env s = filter (\<lambda>t. with_key_column (objs s t)) (tables env)"

definition tables_without_generics :: "'sql env \<Rightarrow> string list" where
  "tables_without_generics env =
     filter (\<lambda>t. t \<notin> set (TABLES_WITH_GENERIC_FOREIGN_KEY env)) (tables env)"

section \<open>Fetching column values\<close>

text \<open>
  \<^verbatim>\<open>_get_constraint_table_ids_part\<close>: runs one statement on the source and appends the
  non-NULL values to the list. A \<^verbatim>\<open>PostgresSyntaxError\<close> is logged with the statement and
  the rows are taken to be \<^verbatim>\<open>[]\<close>; any other exception leaves the function.
\<close>

definition get_constraint_table_ids_part ::
  "'sql env \<Rightarrow> 'sql \<Rightarrow> pk list \<Rightarrow> (error + pk list) \<times> 'sql event list" where
  "get_constraint_table_ids_part env constraint_table_ids_sql constraint_table_ids =
     (if sql_nonempty env constraint_table_ids_sql then
        (case src_fetch env constraint_table_ids_sql of
           Inr c_t_ids \<Rightarrow>
             (Inr (constraint_table_ids @ map the (filter (\<lambda>id. id \<noteq> None) c_t_ids)),
              [Debug_sql constraint_table_ids_sql])
         | Inl PostgresSyntaxError \<Rightarrow>
             (Inr (constraint_table_ids @ map the (filter (\<lambda>id. id \<noteq> None) [])),
              [Debug_sql constraint_table_ids_sql,
               Warning_sql PostgresSyntaxError constraint_table_ids_sql])
         | Inl e \<Rightarrow> (Inl e, [Debug_sql constraint_table_ids_sql]))
      else (Inr constraint_table_ids, []))"

text \<open>The loop of \<^verbatim>\<open>_get_table_column_values\<close> over the statements.\<close>

fun get_constraint_table_ids ::
  "'sql env \<Rightarrow> 'sql list \<Rightarrow> pk list \<Rightarrow> (error + pk list) \<times> 'sql event list" where
  "get_constraint_table_ids env [] ids = (Inr ids, [])"
| "get_constraint_table_ids env (sql # sqls) ids =
     (case get_constraint_table_ids_part env sql ids of
        (Inl e, l1) \<Rightarrow> (Inl e, l1)
      | (Inr ids1, l1) \<Rightarrow>
          (case get_constraint_table_ids env sqls ids1 of (r, l2) \<Rightarrow> (r, l1 @ l2)))"

text \<open>
  \<^verbatim>\<open>_get_table_column_values\<close>. A column that is \<^verbatim>\<open>None\<close> or has no
  \<^verbatim>\<open>constraint_table\<close> raises \<^verbatim>\<open>AttributeError\<close> in the first line, which is caught,
  logged and answered by the empty set, as is a constraint table in
  \<^verbatim>\<open>EXCLUDED_TABLES\<close> (without the log line). The function reads the state and does not
  change it.
\<close>

definition get_table_column_values ::
  "'sql env \<Rightarrow> string \<Rightarrow> DBColumn option \<Rightarrow> pk list \<Rightarrow> (string \<times> pk set) list option \<Rightarrow> bool
     \<Rightarrow> state \<Rightarrow> (error + pk set) \<times> 'sql event list" where
  "get_table_column_values env table column primary_key_values where_conditions_columns
       is_revert s =
     (let call = Fetch_call table column primary_key_values where_conditions_columns is_revert
      in case column of
           None \<Rightarrow> (Inr {}, [call, Warning_attribute])
         | Some c \<Rightarrow>
             (case constraint_table c of
                None \<Rightarrow> (Inr {}, [call, Warning_attribute])
              | Some ct \<Rightarrow>
                  if ct \<in> set (EXCLUDED_TABLES env) then (Inr {}, [call])
                  else
                    (case get_constraint_table_ids env
                            (get_table_column_values_sql env
                               \<lparr>q_table = table, q_table_obj = objs s table, q_column = c,
                                q_key_column_values = key_column_values env,
                                q_primary_key_values = primary_key_values,
                                q_where_conditions_columns = where_conditions_columns,
                                q_is_revert = is_revert\<rparr>) [] of
                       (Inl e, l) \<Rightarrow> (Inl e, call # l)
                     | (Inr constraint_table_ids, l) \<Rightarrow> (Inr (set constraint_table_ids), call # l))))"

section \<open>Phase 1: the key table\<close>

text \<open>\<^verbatim>\<open>_collect_key_table_values\<close>: the seed is added to the key table, without a query.\<close>

definition collect_key_table_values ::
  "'sql env \<Rightarrow> state \<Rightarrow> (error + unit) \<times> state \<times> 'sql event list" where
  "collect_key_table_values env s =
     (case tables_getitem env (KEY_TABLE_NAME env) of
        Inl e \<Rightarrow> (Inl e, s, [])
      | Inr key_table \<Rightarrow>
          (Inr (), set_ready key_table (update_pks key_table (key_column_values env) s), []))"

section \<open>Phase 2a: tables with the key column\<close>

lemma asyncio_wait_cong [fundef_cong]:
  "xs = ys \<Longrightarrow> s = s' \<Longrightarrow> (\<And>x st. x \<in> set ys \<Longrightarrow> f x st = g x st)
     \<Longrightarrow> asyncio_wait f xs s = asyncio_wait g ys s'"
proof (induction ys arbitrary: xs s s')
  case Nil
  then show ?case by simp
next
  case (Cons y ys)
  have "asyncio_wait f ys st = asyncio_wait g ys st" for st
    by (rule Cons.IH) (simp_all add: Cons.prems)
  with Cons.prems show ?case by simp
qed

lemma card_Diff_insert_lt:
  "finite A \<Longrightarrow> x \<in> A \<Longrightarrow> x \<notin> B \<Longrightarrow> card (A - B - {x}) < card (A - B)"
  by (metis Diff_iff card_Diff1_less finite_Diff)

text \<open>
  \<^verbatim>\<open>_recursively_preparing_foreign_table_chunk\<close>,
  \<^verbatim>\<open>_recursively_preparing_foreign_table\<close> and \<^verbatim>\<open>_recursively_preparing_table\<close>.
  \<open>stack_tables\<close> is the tuple of the tables on the way; \<^verbatim>\<open>foreign_table in stack_tables\<close>
  compares table objects, here their names. \<^verbatim>\<open>if not deep_without_key_table\<close> holds for
  0 (the parameter is never \<^verbatim>\<open>None\<close> in a call the code makes). The recursion ends
  because every call from \<^verbatim>\<open>_recursively_preparing_foreign_table\<close> into a chunk puts a
  table of the schema on the stack that was not there: the number of tables off the stack
  decreases, whatever the depth counter is.
\<close>

function
  recursively_preparing_foreign_table_chunk ::
    "'sql env \<Rightarrow> string \<Rightarrow> pk list \<Rightarrow> string list \<Rightarrow> int \<Rightarrow> state
       \<Rightarrow> (error + unit) \<times> state \<times> 'sql event list"
and recursively_preparing_foreign_table ::
    "'sql env \<Rightarrow> string \<Rightarrow> DBColumn \<Rightarrow> pk list \<Rightarrow> string list \<Rightarrow> int \<Rightarrow> state
       \<Rightarrow> (error + unit) \<times> state \<times> 'sql event list"
and recursively_preparing_table ::
    "'sql env \<Rightarrow> string \<Rightarrow> pk list \<Rightarrow> string list \<Rightarrow> int \<Rightarrow> state
       \<Rightarrow> (error + unit) \<times> state \<times> 'sql event list"
where
  "recursively_preparing_foreign_table_chunk env foreign_table foreign_table_pks_chunk
       stack_tables deep_without_key_table s =
     (let dwkt = (if \<not> with_key_column (objs s foreign_table)
                  then deep_without_key_table - 1 else deep_without_key_table)
      in recursively_preparing_table env foreign_table foreign_table_pks_chunk
           stack_tables dwkt s)"
| "recursively_preparing_foreign_table env table column need_transfer_pks' stack_tables
       deep_without_key_table s =
     (case constraint_table column of
        None \<Rightarrow> (Inl AttributeError, s, [])
      | Some ct \<Rightarrow>
          (case tables_getitem env ct of
             Inl e \<Rightarrow> (Inl e, s, [])
           | Inr foreign_table \<Rightarrow>
               if foreign_table \<in> set stack_tables \<or> with_key_column (objs s foreign_table)
               then (Inr (), s, [])
               else
                 (case (if with_key_column (objs s table)
                        then get_table_column_values env table (Some column) [] None False s
                        else get_table_column_values env table (Some column)
                               (if \<not> is_full_transferred (objs s table)
                                then need_transfer_pks' else [])
                               None False s) of
                    (Inl e, l) \<Rightarrow> (Inl e, s, l)
                  | (Inr foreign_table_pks, l) \<Rightarrow>
                      if foreign_table_pks \<noteq> {} then
                        (let foreign_table_pks_difference =
                               foreign_table_pks - need_transfer_pks (objs s foreign_table)
                         in if foreign_table_pks_difference \<noteq> {} then
                              (case asyncio_wait
                                      (\<lambda>chunk st. recursively_preparing_foreign_table_chunk env
                                         foreign_table chunk stack_tables
                                         deep_without_key_table st)
                                      (make_chunks (iter_pks env foreign_table_pks_difference)
                                         (CHUNK_SIZE env))
                                      (update_pks foreign_table foreign_table_pks_difference s) of
                                 (s2, l2) \<Rightarrow> (Inr (), s2, l @ l2))
                            else (Inr (), s, l))
                      else (Inr (), s, l))))"
| "recursively_preparing_table env table need_transfer_pks' stack_tables
       deep_without_key_table s =
     (if deep_without_key_table = 0 then (Inr (), s, [Debug_max_deep])
      else
        (case asyncio_wait
                (\<lambda>column st. recursively_preparing_foreign_table env table column
                   need_transfer_pks' (stack_tables @ [table]) deep_without_key_table st)
                (not_self_fk_columns (objs s table)) s of
           (s1, l1) \<Rightarrow> (Inr (), s1, Debug_stack (stack_tables @ [table]) # l1)))"
  by pat_completeness auto

termination
proof (relation "measure (\<lambda>x. case x of
          Inl (env, ft, ch, st, d, s) \<Rightarrow> 3 * card (set (tables env) - set st - {ft}) + 3
        | Inr (Inl (env, t, c, pks, st, d, s)) \<Rightarrow> 3 * card (set (tables env) - set st) + 1
        | Inr (Inr (env, t, pks, st, d, s)) \<Rightarrow> 3 * card (set (tables env) - set st - {t}) + 2)",
       goal_cases)
  case 1
  show ?case by simp
next
  case (2 env ft ch st d s x)
  show ?case by simp
next
  case (3 env t c pks st d s ct ft)
  then have "ft \<in> set (tables env)" "ft \<notin> set st"
    by (auto simp: tables_getitem_def split: if_splits)
  then have "card (set (tables env) - set st - {ft}) < card (set (tables env) - set st)"
    by (intro card_Diff_insert_lt) simp_all
  then show ?case by simp
next
  case (4 env t pks st d s x z)
  have "set (tables env) - set (st @ [t]) = set (tables env) - set st - {t}" by auto
  then show ?case by simp
qed

declare recursively_preparing_foreign_table_chunk.simps [simp del]
declare recursively_preparing_foreign_table.simps [simp del]
declare recursively_preparing_table.simps [simp del]

text \<open>\<^verbatim>\<open>_recursively_preparing_table_with_key_column\<close>: the walk starts with depth 1.\<close>

definition recursively_preparing_table_with_key_column ::
  "'sql env \<Rightarrow> string \<Rightarrow> pk list \<Rightarrow> state \<Rightarrow> (error + unit) \<times> state \<times> 'sql event list" where
  "recursively_preparing_table_with_key_column env table need_transfer_pks_chunk s =
     recursively_preparing_table env table need_transfer_pks_chunk [] 1 s"

text \<open>\<^verbatim>\<open>_prepare_tables_with_key_column\<close>.\<close>

definition prepare_tables_with_key_column ::
  "'sql env \<Rightarrow> string \<Rightarrow> state \<Rightarrow> (error + unit) \<times> state \<times> 'sql event list" where
  "prepare_tables_with_key_column env table s =
     (case get_table_column_values env table (primary_key (objs s table)) [] None False s of
        (Inl e, l) \<Rightarrow> (Inl e, s, Info_start_key_column table # l)
      | (Inr need_transfer_pks', l) \<Rightarrow>
          (case (if need_transfer_pks' \<noteq> {}
                 then asyncio_wait
                        (\<lambda>chunk st. recursively_preparing_table_with_key_column env table chunk st)
                        (make_chunks (iter_pks env need_transfer_pks') (CHUNK_SIZE env))
                        (update_pks table need_transfer_pks' s)
                 else (s, [])) of
             (s1, l1) \<Rightarrow>
               (Inr (), set_ready table s1,
                Info_start_key_column table # l @ l1 @ [Info_finished_key_column table])))"

section \<open>Phase 2b: the remaining tables\<close>

text \<open>\<^verbatim>\<open>_collect_revert_table_ids\<close>.\<close>

definition collect_revert_table_ids ::
  "'sql env \<Rightarrow> string \<Rightarrow> DBColumn \<Rightarrow> string \<Rightarrow> state
     \<Rightarrow> (error + unit) \<times> state \<times> 'sql event list" where
  "collect_revert_table_ids env rev_table fk_column table s =
     (let rev_table_pk_ids =
            (if \<not> is_full_transferred (objs s rev_table)
             then iter_pks env (need_transfer_pks (objs s rev_table)) else [])
      in case get_table_column_values env rev_table (Some fk_column) rev_table_pk_ids
                None True s of
           (Inl e, l) \<Rightarrow> (Inl e, s, l)
         | (Inr rev_ids, l) \<Rightarrow>
             (Inr (), (if rev_ids \<noteq> {} then update_pks table rev_ids s else s), l))"

text \<open>\<^verbatim>\<open>_collect_importing_revert_tables_data\<close>.\<close>

definition collect_importing_revert_tables_data ::
  "'sql env \<Rightarrow> string \<Rightarrow> string \<Rightarrow> state \<Rightarrow> (error + unit) \<times> state \<times> 'sql event list" where
  "collect_importing_revert_tables_data env rev_table_name table s =
     (case tables_getitem env rev_table_name of
        Inl e \<Rightarrow> (Inl e, s, [])
      | Inr rev_table \<Rightarrow>
          if fks_with_key_column (objs s rev_table) \<noteq> [] \<and> \<not> with_key_column (objs s table)
          then (Inr (), s, [Info_prepare_revert rev_table_name])
          else
            (case (if need_transfer_pks (objs s rev_table) \<noteq> {}
                   then asyncio_wait
                          (\<lambda>fk_column st. collect_revert_table_ids env rev_table fk_column table st)
                          (get_columns_by_constraint_table_name (objs s rev_table) table
                             [FOREIGN_KEY]) s
                   else (s, [])) of
               (s1, l1) \<Rightarrow>
                 (Inr (), set_revert table rev_table_name s1,
                  Info_prepare_revert rev_table_name # l1)))"

text \<open>
  The first loop of \<^verbatim>\<open>_collect_importing_fk_tables_records_ids\<close>: the dict
  \<open>where_conditions_columns\<close> and the flag \<open>with_full_transferred_table\<close>.
\<close>

fun where_conditions_loop ::
  "'sql env \<Rightarrow> state \<Rightarrow> DBColumn list \<Rightarrow> (string \<times> pk set) list \<Rightarrow> bool
     \<Rightarrow> error + ((string \<times> pk set) list \<times> bool)" where
  "where_conditions_loop env s [] where_conditions_columns with_full_transferred_table =
     Inr (where_conditions_columns, with_full_transferred_table)"
| "where_conditions_loop env s (fk_column # fk_columns) where_conditions_columns
       with_full_transferred_table =
     (case constraint_table fk_column of
        None \<Rightarrow> Inl AttributeError
      | Some ct \<Rightarrow>
          (case tables_getitem env ct of
             Inl e \<Rightarrow> Inl e
           | Inr fk_table \<Rightarrow>
               if need_transfer_pks (objs s fk_table) \<noteq> {} then
                 (if \<not> is_full_transferred (objs s fk_table)
                  then where_conditions_loop env s fk_columns
                         (AList.update (column_name fk_column)
                            (need_transfer_pks (objs s fk_table)) where_conditions_columns)
                         with_full_transferred_table
                  else where_conditions_loop env s fk_columns where_conditions_columns True)
               else where_conditions_loop env s fk_columns where_conditions_columns
                      with_full_transferred_table))"

text \<open>The choice of the FK columns at the head of the function.\<close>

definition fk_columns_of :: "DBTable \<Rightarrow> DBColumn list" where
  "fk_columns_of t =
     (let fk_columns = (if fks_with_key_column t \<noteq> [] then fks_with_key_column t
                        else not_self_fk_columns t);
          unique_fks_columns = unique_foreign_keys_columns t
      in if unique_fks_columns \<noteq> [] then unique_fks_columns else fk_columns)"

text \<open>
  \<^verbatim>\<open>_collect_importing_fk_tables_records_ids\<close>. The two early \<^verbatim>\<open>return\<close>s leave the
  table as it is. The result of the direct fetch is read with \<^verbatim>\<open>.result()\<close>, which
  raises the task's exception.
\<close>

definition collect_importing_fk_tables_records_ids ::
  "'sql env \<Rightarrow> string \<Rightarrow> state \<Rightarrow> (error + unit) \<times> state \<times> 'sql event list" where
  "collect_importing_fk_tables_records_ids env table s =
     (let fk_columns = fk_columns_of (objs s table)
      in case where_conditions_loop env s fk_columns [] False of
           Inl e \<Rightarrow> (Inl e, s, [Info_start_collecting table])
         | Inr (where_conditions_columns, with_full_transferred_table) \<Rightarrow>
             if fk_columns \<noteq> [] \<and> where_conditions_columns = [] \<and>
                \<not> with_full_transferred_table
             then (Inr (), s, [Info_start_collecting table])
             else
               (case get_table_column_values env table (primary_key (objs s table)) []
                       (Some where_conditions_columns) False s of
                  (Inl e, l) \<Rightarrow> (Inl e, s, Info_start_collecting table # l)
                | (Inr fk_ids, l) \<Rightarrow>
                    if fk_columns \<noteq> [] \<and> where_conditions_columns \<noteq> [] \<and> fk_ids = {}
                    then (Inr (), s, Info_start_collecting table # l)
                    else
                      (case asyncio_wait
                              (\<lambda>rev_table_name st.
                                 collect_importing_revert_tables_data env rev_table_name table st)
                              (map fst (revert_fk_tables (objs s table)))
                              (update_pks table fk_ids s) of
                         (s1, l1) \<Rightarrow>
                           if need_transfer_pks (objs s1 table) = {} then
                             (case get_table_column_values env table
                                     (primary_key (objs s1 table)) [] None False s1 of
                                (Inl e, l2) \<Rightarrow>
                                  (Inl e, s1, Info_start_collecting table # l @ l1 @ l2)
                              | (Inr all_records, l2) \<Rightarrow>
                                  (Inr (), set_ready table (update_pks table all_records s1),
                                   Info_start_collecting table # l @ l1 @ l2
                                     @ [Info_finished_collecting table]))
                           else
                             (Inr (), set_ready table s1,
                              Info_start_collecting table # l @ l1
                                @ [Info_finished_collecting table]))))"

text \<open>
  \<^verbatim>\<open>_prepare_common_tables\<close>, in its parts: the edge list
  \<open>not_transferred_relatives\<close>, the order \<open>sorted_not_transferred\<close>, and the \<^verbatim>\<open>for\<close> loop
  that awaits one table after the other. \<open>without_relatives\<close> is
  \<^verbatim>\<open>list({\<dots>}.difference(sorted_not_transferred))\<close>: a set of names, in the order in which
  Python iterates over it.
\<close>

fun relatives_of_columns :: "string \<Rightarrow> DBColumn list \<Rightarrow> error + (string \<times> string) list" where
  "relatives_of_columns table [] = Inr []"
| "relatives_of_columns table (fk_column # fk_columns) =
     (case constraint_table fk_column of
        None \<Rightarrow> Inl AttributeError
      | Some ct \<Rightarrow>
          (case relatives_of_columns table fk_columns of
             Inl e \<Rightarrow> Inl e
           | Inr r \<Rightarrow> Inr ((table, ct) # r)))"

fun not_transferred_relatives :: "state \<Rightarrow> string list \<Rightarrow> error + (string \<times> string) list" where
  "not_transferred_relatives s [] = Inr []"
| "not_transferred_relatives s (table # ts) =
     (case relatives_of_columns table (not_self_fk_columns (objs s table)) of
        Inl e \<Rightarrow> Inl e
      | Inr r \<Rightarrow>
          (case not_transferred_relatives s ts of
             Inl e \<Rightarrow> Inl e
           | Inr rs \<Rightarrow> Inr (r @ rs)))"

definition sorted_not_transferred :: "'sql env \<Rightarrow> state \<Rightarrow> error + string list" where
  "sorted_not_transferred env s =
     (case not_transferred_relatives s (tables_without_generics env) of
        Inl e \<Rightarrow> Inl e
      | Inr relatives \<Rightarrow>
          (case topological_sort env relatives of
             (sorted', cyclic) \<Rightarrow>
               (let sorted_cyclic = rev cyclic @ rev sorted';
                    without_relatives =
                      iter_names env (set (tables_without_generics env) - set sorted_cyclic)
                in Inr (without_relatives @ sorted_cyclic))))"

fun collect_not_transferred ::
  "'sql env \<Rightarrow> string list \<Rightarrow> state \<Rightarrow> (error + unit) \<times> state \<times> 'sql event list" where
  "collect_not_transferred env [] s = (Inr (), s, [])"
| "collect_not_transferred env (table_name # rest) s =
     (case tables_getitem env table_name of
        Inl e \<Rightarrow> (Inl e, s, [])
      | Inr table \<Rightarrow>
          if \<not> is_ready_for_transferring (objs s table) then
            (case collect_importing_fk_tables_records_ids env table s of
               (Inl e, s1, l1) \<Rightarrow> (Inl e, s1, l1)
             | (Inr _, s1, l1) \<Rightarrow>
                 (case collect_not_transferred env rest s1 of
                    (r, s2, l2) \<Rightarrow> (r, s2, l1 @ l2)))
          else collect_not_transferred env rest s)"

definition prepare_common_tables ::
  "'sql env \<Rightarrow> state \<Rightarrow> (error + unit) \<times> state \<times> 'sql event list" where
  "prepare_common_tables env s =
     (case asyncio_wait (\<lambda>table st. prepare_tables_with_key_column env table st)
             (tables_with_key_column env s) s of
        (s1, l1) \<Rightarrow>
          (case sorted_not_transferred env s1 of
             Inl e \<Rightarrow> (Inl e, s1, l1)
           | Inr order \<Rightarrow>
               (case collect_not_transferred env order s1 of
                  (r, s2, l2) \<Rightarrow> (r, s2, l1 @ l2))))"

section \<open>Phase 3: tables with a generic foreign key\<close>

text \<open>
  The two dict comprehensions of \<^verbatim>\<open>_prepare_content_type_tables\<close>: a later row
  with the same \<^verbatim>\<open>(app_label, model)\<close> replaces the value and keeps the key's place.
\<close>

definition content_type_table_dict_of ::
  "(string \<times> string \<times> string) list \<Rightarrow> ((string \<times> string) \<times> string) list" where
  "content_type_table_dict_of content_type_table_list =
     foldl (\<lambda>d (table_name, app_label, model). AList.update (app_label, model) table_name d)
       [] content_type_table_list"

definition content_type_dict_of ::
  "(pk \<times> string \<times> string) list \<Rightarrow> ((string \<times> string) \<times> pk) list" where
  "content_type_dict_of content_type_list =
     foldl (\<lambda>d (content_type_id, app_label, model).
              AList.update (app_label, model) content_type_id d)
       [] content_type_list"

text \<open>
  The loop over \<^verbatim>\<open>content_type_table_dict.keys()\<close>. The right-hand side
  \<^verbatim>\<open>content_type_dict[key]\<close> is evaluated first and raises \<^verbatim>\<open>KeyError\<close> for a key the
  source catalog does not have; the entries stored before stay.
\<close>

fun fill_content_type_table ::
  "((string \<times> string) \<times> string) list \<Rightarrow> ((string \<times> string) \<times> pk) list
     \<Rightarrow> (string \<times> string) list \<Rightarrow> state \<Rightarrow> (error + unit) \<times> state" where
  "fill_content_type_table content_type_table_dict content_type_dict [] s = (Inr (), s)"
| "fill_content_type_table content_type_table_dict content_type_dict (key # keys) s =
     (case map_of content_type_dict key of
        None \<Rightarrow> (Inl KeyError, s)
      | Some content_type_id \<Rightarrow>
          (case map_of content_type_table_dict key of
             None \<Rightarrow> (Inl KeyError, s)
           | Some table_name \<Rightarrow>
               fill_content_type_table content_type_table_dict content_type_dict keys
                 (s\<lparr>content_type_table :=
                      AList.update table_name content_type_id (content_type_table s)\<rparr>)))"

text \<open>\<^verbatim>\<open>_prepare_content_type_tables\<close>.\<close>

definition prepare_content_type_tables ::
  "'sql env \<Rightarrow> state \<Rightarrow> (error + unit) \<times> state \<times> 'sql event list" where
  "prepare_content_type_tables env s =
     (case dst_content_type_table_list env of
        Inl e \<Rightarrow> (Inl e, s, [])
      | Inr content_type_table_list \<Rightarrow>
          (case src_content_type_list env of
             Inl e \<Rightarrow> (Inl e, s, [])
           | Inr content_type_list \<Rightarrow>
               (let content_type_table_dict = content_type_table_dict_of content_type_table_list;
                    content_type_dict = content_type_dict_of content_type_list
                in case fill_content_type_table content_type_table_dict content_type_dict
                          (map fst content_type_table_dict) s of
                     (r, s1) \<Rightarrow> (r, s1, []))))"

text \<open>
  \<^verbatim>\<open>_prepare_content_type_generic_data\<close>. \<open>target_table\<close> is what
  \<^verbatim>\<open>tables.get\<close> returned to the caller, so it can be \<^verbatim>\<open>None\<close>; reading a column or a
  data type of \<^verbatim>\<open>None\<close> raises \<^verbatim>\<open>AttributeError\<close>.
\<close>

definition prepare_content_type_generic_data ::
  "'sql env \<Rightarrow> string option \<Rightarrow> string \<Rightarrow> state \<Rightarrow> (error + unit) \<times> state \<times> 'sql event list" where
  "prepare_content_type_generic_data env target_table rel_table_name s =
     (if rel_table_name = [] then (Inr (), s, [])
      else
        (case tables_get env rel_table_name of
           None \<Rightarrow> (Inr (), s, [])
         | Some rel_table \<Rightarrow>
             (case target_table of
                None \<Rightarrow> (Inl AttributeError, s, [])
              | Some target \<Rightarrow>
                  (case primary_key (objs s rel_table) of
                     None \<Rightarrow> (Inl AttributeError, s, [])
                   | Some rel_pk \<Rightarrow>
                       (case get_column_by_name (objs s target) ''object_id'' of
                          None \<Rightarrow> (Inl AttributeError, s, [])
                        | Some object_id_column \<Rightarrow>
                            if data_type rel_pk \<noteq> data_type object_id_column
                            then (Inr (), s, [])
                            else
                              (case map_of (content_type_table s) rel_table of
                                 None \<Rightarrow> (Inl KeyError, s, [])
                               | Some content_type_id \<Rightarrow>
                                   (case get_table_column_values env target
                                           (primary_key (objs s target)) []
                                           (Some [(''object_id'',
                                                   need_transfer_pks (objs s rel_table)),
                                                  (''content_type_id'', {content_type_id})])
                                           False s of
                                      (Inl e, l) \<Rightarrow> (Inl e, s, l)
                                    | (Inr need_transfer_pks', l) \<Rightarrow>
                                        (Inr (), update_pks target need_transfer_pks' s, l))))))))"

text \<open>
  \<^verbatim>\<open>_prepare_generic_table_data\<close>: its first line reads \<^verbatim>\<open>target_table.name\<close>.
\<close>

definition prepare_generic_table_data ::
  "'sql env \<Rightarrow> string option \<Rightarrow> state \<Rightarrow> (error + unit) \<times> state \<times> 'sql event list" where
  "prepare_generic_table_data env target_table s =
     (case target_table of
        None \<Rightarrow> (Inl AttributeError, s, [])
      | Some _ \<Rightarrow>
          (case asyncio_wait
                  (\<lambda>rel_table_name st.
                     prepare_content_type_generic_data env target_table rel_table_name st)
                  (map fst (content_type_table s)) s of
             (s1, l1) \<Rightarrow> (Inr (), s1, l1)))"

text \<open>
  \<^verbatim>\<open>_collect_generic_tables_records_ids\<close>. The set difference is a set of names,
  iterated in Python's order; \<^verbatim>\<open>filter(None, \<dots>)\<close> drops the empty name.
\<close>

definition collect_generic_tables_records_ids ::
  "'sql env \<Rightarrow> state \<Rightarrow> (error + unit) \<times> state \<times> 'sql event list" where
  "collect_generic_tables_records_ids env s =
     (case asyncio_wait (\<lambda>_ st. prepare_content_type_tables env st) [()] s of
        (s1, l1) \<Rightarrow>
          (let generic_table_names =
                 iter_names env
                   (set (TABLES_WITH_GENERIC_FOREIGN_KEY env) - set (EXCLUDED_TABLES env))
           in case asyncio_wait
                     (\<lambda>table_name st.
                        prepare_generic_table_data env (tables_get env table_name) st)
                     (filter (\<lambda>n. n \<noteq> []) generic_table_names) s1 of
                (s2, l2) \<Rightarrow> (Inr (), s2, l1 @ l2)))"

section \<open>The three phases\<close>

text \<open>
  \<^verbatim>\<open>collect\<close>: each phase is one task given to \<^verbatim>\<open>asyncio.wait\<close>. The statistics
  scopes around the phases are not modelled.
\<close>

definition collect :: "'sql env \<Rightarrow> state \<Rightarrow> (error + unit) \<times> state \<times> 'sql event list" where
  "collect env s =
     (case asyncio_wait (\<lambda>_ st. collect_key_table_values env st) [()] s of
        (s1, l1) \<Rightarrow>
          (case asyncio_wait (\<lambda>_ st. prepare_common_tables env st) [()] s1 of
             (s2, l2) \<Rightarrow>
               (case asyncio_wait (\<lambda>_ st. collect_generic_tables_records_ids env st) [()] s2 of
                  (s3, l3) \<Rightarrow> (Inr (), s3, l1 @ l2 @ l3))))"

section \<open>The transporter\<close>

text \<open>
  The transporter's surroundings: its own chunk size, the SQL repository's
  \<^verbatim>\<open>get_transfer_records_sql\<close> and the destination connection (the first column of the
  returned rows, or the driver's exception).
\<close>

record 'sql transporter =
  T_CHUNK_SIZE :: nat
  get_transfer_records_sql :: "string \<Rightarrow> pk list \<Rightarrow> 'sql"
  dst_fetch :: "'sql \<Rightarrow> error + pk list"
  iter_need_imported :: "pk set \<Rightarrow> pk list"

text \<open>
  \<^verbatim>\<open>_transfer_chunk_table_data\<close>: the three caught exceptions are logged with the
  statement and raised again by \<^verbatim>\<open>raise type(e)\<close>; any other exception passes unlogged.
\<close>

definition transfer_chunk_table_data ::
  "'sql transporter \<Rightarrow> string \<Rightarrow> pk list \<Rightarrow> state \<Rightarrow> (error + unit) \<times> state \<times> 'sql event list" where
  "transfer_chunk_table_data tr table need_import_ids_chunk s =
     (let transfer_sql = get_transfer_records_sql tr table need_import_ids_chunk
      in case dst_fetch tr transfer_sql of
           Inl e \<Rightarrow>
             if e \<in> {UndefinedColumnError, NotNullViolationError, PostgresSyntaxError}
             then (Inl e, s, [Warning_transfer e table transfer_sql])
             else (Inl e, s, [])
         | Inr transferred_ids' \<Rightarrow>
             (Inr (),
              (if transferred_ids' \<noteq> []
               then s\<lparr>objs := (objs s)(table := (objs s table)\<lparr>transferred_ids :=
                      transferred_ids (objs s table) \<union> set transferred_ids'\<rparr>)\<rparr>
               else s),
              []))"

text \<open>The \<^verbatim>\<open>for\<close> loop of \<^verbatim>\<open>_transfer_table_data\<close> over the chunks, and the function.\<close>

fun transfer_chunks ::
  "'sql transporter \<Rightarrow> string \<Rightarrow> pk list list \<Rightarrow> state \<Rightarrow> (error + unit) \<times> state \<times> 'sql event list" where
  "transfer_chunks tr table [] s = (Inr (), s, [])"
| "transfer_chunks tr table (need_import_ids_chunk # chunks) s =
     (case transfer_chunk_table_data tr table need_import_ids_chunk s of
        (Inl e, s1, l1) \<Rightarrow> (Inl e, s1, l1)
      | (Inr _, s1, l1) \<Rightarrow>
          (case transfer_chunks tr table chunks s1 of (r, s2, l2) \<Rightarrow> (r, s2, l1 @ l2)))"

definition transfer_table_data ::
  "'sql transporter \<Rightarrow> string \<Rightarrow> state \<Rightarrow> (error + unit) \<times> state \<times> 'sql event list" where
  "transfer_table_data tr table s =
     transfer_chunks tr table
       (make_chunks (iter_need_imported tr (need_imported (objs s table))) (T_CHUNK_SIZE tr)) s"

section \<open>Concrete schemas\<close>

text \<open>
  Small schemas, sources and surroundings on which the functions above are run: an
  object with nothing in it, the usual columns, and surroundings whose source (or
  destination) answers every statement with the given exception.
\<close>

definition no_table :: DBTable where
  "no_table = \<lparr>primary_key = None, columns = [], not_self_fk_columns = [],
     fks_with_key_column = [], unique_foreign_keys_columns = [], with_key_column = False,
     is_full_transferred = False, is_ready_for_transferring = False, need_transfer_pks = {},
     revert_fk_tables = [], need_imported = {}, transferred_ids = {}\<rparr>"

definition pk_column :: "string \<Rightarrow> string \<Rightarrow> DBColumn" where
  "pk_column t dt = \<lparr>column_name = ''id'', data_type = dt, constraint_table = Some t,
     constraint_type = Some PRIMARY_KEY\<rparr>"

definition fk_column :: "string \<Rightarrow> string \<Rightarrow> DBColumn" where
  "fk_column n t = \<lparr>column_name = n, data_type = ''integer'', constraint_table = Some t,
     constraint_type = Some FOREIGN_KEY\<rparr>"

definition plain_column :: "string \<Rightarrow> string \<Rightarrow> DBColumn" where
  "plain_column n dt = \<lparr>column_name = n, data_type = dt, constraint_table = None,
     constraint_type = None\<rparr>"

definition empty_state :: state where
  "empty_state = \<lparr>objs = (\<lambda>_. no_table), content_type_table = []\<rparr>"

definition failing_env :: "error \<Rightarrow> string env" where
  "failing_env e =
     \<lparr>KEY_TABLE_NAME = ''org'', EXCLUDED_TABLES = [], TABLES_WITH_GENERIC_FOREIGN_KEY = [],
      CHUNK_SIZE = 70000, key_column_values = {1}, tables = [''org'', ''user''],
      get_table_column_values_sql = (\<lambda>q. [''SELECT'']), sql_nonempty = (\<lambda>q. q \<noteq> []),
      src_fetch = (\<lambda>q. Inl e),
      dst_content_type_table_list = Inr [], src_content_type_list = Inr [],
      topological_sort = (\<lambda>edges. ([], [])), iter_pks = sorted_list_of_set,
      iter_names = sorted_list_of_set\<rparr>"

definition failing_transporter :: "error \<Rightarrow> string transporter" where
  "failing_transporter e =
     \<lparr>T_CHUNK_SIZE = 70000, get_transfer_records_sql = (\<lambda>t ids. ''INSERT''),
      dst_fetch = (\<lambda>q. Inl e), iter_need_imported = sorted_list_of_set\<rparr>"

text \<open>
  A content-type catalog whose destination side has a pair \<^verbatim>\<open>(blog, photo)\<close> that the
  source side lacks, and a schema with a generic table \<^verbatim>\<open>comment\<close> whose \<^verbatim>\<open>object_id\<close>
  is an integer while the primary key of \<^verbatim>\<open>post\<close> is a uuid.
\<close>

definition catalog_env :: "string env" where
  "catalog_env = (failing_env KeyError)
     \<lparr>dst_content_type_table_list :=
        Inr [(''blog_post'', ''blog'', ''post''), (''blog_photo'', ''blog'', ''photo''),
             (''blog_tag'', ''blog'', ''tag'')],
      src_content_type_list := Inr [(7, ''blog'', ''post''), (9, ''blog'', ''tag'')]\<rparr>"

definition generic_env :: "string env" where
  "generic_env = (failing_env KeyError)
     \<lparr>tables := [''comment'', ''post''],
      TABLES_WITH_GENERIC_FOREIGN_KEY := [''comment'']\<rparr>"

definition generic_state :: state where
  "generic_state = \<lparr>objs = (\<lambda>_. no_table)
       (''comment'' := no_table\<lparr>primary_key := Some (pk_column ''comment'' ''integer''),
          columns := [pk_column ''comment'' ''integer'', plain_column ''content_type_id'' ''integer'',
                      plain_column ''object_id'' ''integer''],
          need_transfer_pks := {5}\<rparr>,
        ''post'' := no_table\<lparr>primary_key := Some (pk_column ''post'' ''uuid''),
          columns := [pk_column ''post'' ''uuid''], need_transfer_pks := {10}\<rparr>),
     content_type_table = [(''post'', 7), (''photo'', 8)]\<rparr>"

section \<open>Auxiliary notions\<close>

text \<open>
  Notions the proofs below use. \<open>fetched\<close> are the non-NULL values the source can return
  to any statement. \<open>static_part\<close> is a table object without the three fields the
  collector writes. \<open>grows F\<close> relates two states when every table keeps its static part
  and its ready flag once set, and its \<open>need_transfer_pks\<close> has grown by values of \<open>F\<close>
  only. \<open>stable\<close> says that a relation on states is reflexive, transitive and respected by
  every elementary mutation the collector performs.
\<close>

definition static_part :: "DBTable \<Rightarrow> DBTable" where
  "static_part t = t\<lparr>need_transfer_pks := {}, is_ready_for_transferring := False,
     revert_fk_tables := []\<rparr>"

definition fetched :: "'sql env \<Rightarrow> pk set" where
  "fetched env = {v. \<exists>sql rows. src_fetch env sql = Inr rows \<and> Some v \<in> set rows}"

definition grows :: "(string \<Rightarrow> pk set) \<Rightarrow> state \<Rightarrow> state \<Rightarrow> bool" where
  "grows F s s' \<longleftrightarrow>
     (\<forall>u. static_part (objs s' u) = static_part (objs s u) \<and>
          need_transfer_pks (objs s u) \<subseteq> need_transfer_pks (objs s' u) \<and>
          need_transfer_pks (objs s' u) \<subseteq> need_transfer_pks (objs s u) \<union> F u \<and>
          (is_ready_for_transferring (objs s u) \<longrightarrow> is_ready_for_transferring (objs s' u)))"

definition stable :: "'sql env \<Rightarrow> (state \<Rightarrow> state \<Rightarrow> bool) \<Rightarrow> bool" where
  "stable env R \<longleftrightarrow>
     (\<forall>a. R a a) \<and> (\<forall>a b c. R a b \<longrightarrow> R b c \<longrightarrow> R a c) \<and>
     (\<forall>u ids a. ids \<subseteq> fetched env \<longrightarrow> R a (update_pks u ids a)) \<and>
     (\<forall>u n a. R a (set_revert u n a)) \<and> (\<forall>u a. R a (set_ready u a)) \<and>
     (\<forall>x a. R a (a\<lparr>content_type_table := x\<rparr>))"

text \<open>
  Where a selected key comes from. A statement is built from a query; \<open>targets s q T\<close>
  says that the query's column leads to table \<open>T\<close>: it is a column of the query's table
  (one of its \<open>columns\<close> or \<open>not_self_fk_columns\<close>) whose constraint table is \<open>T\<close>, or the
  query's table is \<open>T\<close> and the column is its primary key. \<open>answered env s l T v\<close> says
  that the log \<open>l\<close> holds a statement built for such a query to which the source returned
  the value \<open>v\<close>. \<open>same_schema\<close> relates two states whose tables differ in nothing but
  what the collector mutates, and \<open>prov env l s s'\<close> says that the run from \<open>s\<close> to \<open>s'\<close>
  with the log \<open>l\<close> kept the schema and selected only keys that \<open>l\<close> accounts for.
\<close>

definition targets :: "state \<Rightarrow> query \<Rightarrow> string \<Rightarrow> bool" where
  "targets s q T \<longleftrightarrow>
     (constraint_table (q_column q) = Some T \<and>
      (q_column q \<in> set (columns (objs s (q_table q))) \<or>
       q_column q \<in> set (not_self_fk_columns (objs s (q_table q))))) \<or>
     (q_table q = T \<and> primary_key (objs s T) = Some (q_column q))"

definition answered :: "'sql env \<Rightarrow> state \<Rightarrow> 'sql event list \<Rightarrow> string \<Rightarrow> pk \<Rightarrow> bool" where
  "answered env s l T v \<longleftrightarrow>
     (\<exists>q sql rows. targets s q T \<and> sql \<in> set (get_table_column_values_sql env q) \<and>
        Debug_sql sql \<in> set l \<and> src_fetch env sql = Inr rows \<and> Some v \<in> set rows)"

definition same_schema :: "state \<Rightarrow> state \<Rightarrow> bool" where
  "same_schema a b \<longleftrightarrow> (\<forall>u. static_part (objs b u) = static_part (objs a u))"

definition prov :: "'sql env \<Rightarrow> 'sql event list \<Rightarrow> state \<Rightarrow> state \<Rightarrow> bool" where
  "prov env l s s' \<longleftrightarrow>
     same_schema s s' \<and>
     (\<forall>T v. v \<in> need_transfer_pks (objs s' T) \<longrightarrow>
        v \<in> need_transfer_pks (objs s T) \<or> answered env s l T v)"

text \<open>
  Modelled from the spec: the source database behind \<^verbatim>\<open>SQLRepository\<close> and the
  connection (neither is part of the sources). A source is a list of tables, a table a
  list of rows, a row a list of column values with \<^verbatim>\<open>None\<close> for NULL. The statement
  for a query is the query itself; its answer are the distinct non-NULL values of the
  column in the rows that pass every restriction the query carries: the key column (of a
  table with the key column) within the seed, the primary key within
  \<open>primary_key_values\<close> when that is not empty, and every column of
  \<open>where_conditions_columns\<close> within its set.
\<close>

type_synonym source_row = "(string \<times> pk option) list"

definition row_value :: "source_row \<Rightarrow> string \<Rightarrow> pk option" where
  "row_value r c = (case map_of r c of None \<Rightarrow> None | Some v \<Rightarrow> v)"

definition select_column_values ::
  "(string \<times> source_row list) list \<Rightarrow> string \<Rightarrow> query \<Rightarrow> pk option list" where
  "select_column_values src key_column q =
     (let rows = (case map_of src (q_table q) of None \<Rightarrow> [] | Some rs \<Rightarrow> rs);
          pk_name = (case primary_key (q_table_obj q) of None \<Rightarrow> [] | Some c \<Rightarrow> column_name c);
          keep = (\<lambda>r.
            (if with_key_column (q_table_obj q)
             then row_value r key_column \<in> Some ` q_key_column_values q else True) \<and>
            (if q_primary_key_values q = [] then True
             else row_value r pk_name \<in> Some ` set (q_primary_key_values q)) \<and>
            (case q_where_conditions_columns q of
               None \<Rightarrow> True
             | Some w \<Rightarrow> list_all (\<lambda>(c, vs). row_value r c \<in> Some ` vs) w))
      in remdups (filter (\<lambda>v. v \<noteq> None)
           (map (\<lambda>r. row_value r (column_name (q_column q))) (filter keep rows))))"

text \<open>
  Modelled from the spec: \<^verbatim>\<open>core.helpers.topological_sort\<close> is not part of the sources.
  The edges are \<open>(child, parent)\<close>; \<open>cyclic\<close> are the nodes that reach themselves, in
  the order of their first mention; \<open>sorted\<close> are the other nodes, each after its
  parents.
\<close>

definition graph_nodes :: "(string \<times> string) list \<Rightarrow> string list" where
  "graph_nodes edges = remdups (concat (map (\<lambda>(c, p). [c, p]) edges))"

definition parents_of :: "(string \<times> string) list \<Rightarrow> string \<Rightarrow> string list" where
  "parents_of edges n = map snd (filter (\<lambda>(c, p). c = n) edges)"

fun reach :: "(string \<times> string) list \<Rightarrow> nat \<Rightarrow> string list \<Rightarrow> string list" where
  "reach edges 0 xs = xs"
| "reach edges (Suc k) xs = reach edges k (remdups (xs @ concat (map (parents_of edges) xs)))"

definition on_cycle :: "(string \<times> string) list \<Rightarrow> string \<Rightarrow> bool" where
  "on_cycle edges n = (n \<in> set (reach edges (length edges) (parents_of edges n)))"

fun linearize ::
  "(string \<times> string) list \<Rightarrow> string list \<Rightarrow> nat \<Rightarrow> string list \<Rightarrow> string list \<Rightarrow> string list" where
  "linearize edges cyclic 0 placed rest = placed"
| "linearize edges cyclic (Suc k) placed rest =
     (let ready = filter (\<lambda>n. list_all (\<lambda>p. p \<in> set placed \<or> p \<in> set cyclic)
                                  (parents_of edges n)) rest
      in linearize edges cyclic k (placed @ ready) (filter (\<lambda>n. n \<notin> set ready) rest))"

definition topological_sort_spec :: "(string \<times> string) list \<Rightarrow> string list \<times> string list" where
  "topological_sort_spec edges =
     (let nodes = graph_nodes edges;
          cyclic = filter (on_cycle edges) nodes
      in (linearize edges cyclic (length nodes) [] (filter (\<lambda>n. n \<notin> set cyclic) nodes), cyclic))"

text \<open>
  A table with an integer primary key \<^verbatim>\<open>id\<close>, the given FK columns and the given
  referencing tables; surroundings over a source, with the spec's sorter and sets iterated
  in ascending order.
\<close>

definition plain_table :: "string \<Rightarrow> DBColumn list \<Rightarrow> string list \<Rightarrow> DBTable" where
  "plain_table t fks revs = no_table\<lparr>primary_key := Some (pk_column t ''integer''),
     columns := pk_column t ''integer'' # fks,
     not_self_fk_columns := filter (\<lambda>c. constraint_table c \<noteq> Some t) fks,
     revert_fk_tables := map (\<lambda>r. (r, False)) revs\<rparr>"

definition source_env ::
  "(string \<times> source_row list) list \<Rightarrow> string \<Rightarrow> string list \<Rightarrow> pk set \<Rightarrow> query env" where
  "source_env src key_table ts seed =
     \<lparr>KEY_TABLE_NAME = key_table, EXCLUDED_TABLES = [], TABLES_WITH_GENERIC_FOREIGN_KEY = [],
      CHUNK_SIZE = 70000, key_column_values = seed, tables = ts,
      get_table_column_values_sql = (\<lambda>q. [q]), sql_nonempty = (\<lambda>q. True),
      src_fetch = (\<lambda>q. Inr (select_column_values src (key_table @ ''_id'') q)),
      dst_content_type_table_list = Inr [], src_content_type_list = Inr [],
      topological_sort = topological_sort_spec, iter_pks = sorted_list_of_set,
      iter_names = sorted_list_of_set\<rparr>"

text \<open>
  The chain \<^verbatim>\<open>org, dept, region\<close>: the key table \<^verbatim>\<open>org\<close> has one row, which references
  row 10 of \<^verbatim>\<open>dept\<close>; that row references no region, and \<^verbatim>\<open>region\<close> is empty. The seed is
  \<open>{1}\<close>. \<open>chain_seeded\<close> is the state after Phase 1.
\<close>

definition chain_source :: "(string \<times> source_row list) list" where
  "chain_source =
     [(''org'', [[(''id'', Some 1), (''dept_id'', Some 10)]]),
      (''dept'', [[(''id'', Some 10), (''region_id'', None)]]),
      (''region'', [])]"

definition chain_env :: "query env" where
  "chain_env = source_env chain_source ''org'' [''org'', ''dept'', ''region''] {1}"

definition chain_state :: state where
  "chain_state = \<lparr>objs = (\<lambda>_. no_table)
       (''org'' := plain_table ''org'' [fk_column ''dept_id'' ''dept''] [],
        ''dept'' := plain_table ''dept'' [fk_column ''region_id'' ''region''] [''org''],
        ''region'' := plain_table ''region'' [] [''dept'']),
     content_type_table = []\<rparr>"

definition chain_seeded :: state where
  "chain_seeded = set_ready ''org'' (update_pks ''org'' {1} chain_state)"

text \<open>
  The chain in a schema with two more tables, \<^verbatim>\<open>gamma\<close> and \<^verbatim>\<open>beta\<close> in this order of
  the tables dict, that have no columns and that no foreign key references.
\<close>

definition isles_env :: "query env" where
  "isles_env = chain_env\<lparr>tables := [''org'', ''dept'', ''region'', ''gamma'', ''beta'']\<rparr>"

text \<open>
  Reading a source: the value of a column in the row with a given \<^verbatim>\<open>id\<close>, and the
  primary keys present in a table. The key-only schema: \<^verbatim>\<open>org\<close> holds the rows 1, 2 and
  3, and the caller's seed is \<open>{1, 2, 99}\<close>.
\<close>

definition source_value ::
  "(string \<times> source_row list) list \<Rightarrow> string \<Rightarrow> pk \<Rightarrow> string \<Rightarrow> pk option" where
  "source_value src t v c =
     (case find (\<lambda>r. row_value r ''id'' = Some v)
             (case map_of src t of None \<Rightarrow> [] | Some rs \<Rightarrow> rs) of
        None \<Rightarrow> None
      | Some r \<Rightarrow> row_value r c)"

definition source_pks :: "(string \<times> source_row list) list \<Rightarrow> string \<Rightarrow> pk list" where
  "source_pks src t =
     List.map_filter (\<lambda>r. row_value r ''id'') (case map_of src t of None \<Rightarrow> [] | Some rs \<Rightarrow> rs)"

definition key_source :: "(string \<times> source_row list) list" where
  "key_source = [(''org'', [[(''id'', Some 1)], [(''id'', Some 2)], [(''id'', Some 3)]])]"

definition key_env :: "query env" where
  "key_env = source_env key_source ''org'' [''org''] {1, 2, 99}"

definition key_state :: state where
  "key_state = \<lparr>objs = (\<lambda>_. no_table)(''org'' := plain_table ''org'' [] []),
     content_type_table = []\<rparr>"

text \<open>
  The pair \<^verbatim>\<open>org, user\<close>: the key table \<^verbatim>\<open>org\<close> has the row 1, and the one row of \<^verbatim>\<open>user\<close>,
  with the key 5, references it. The seed is \<open>{1}\<close>; \<open>pair_seeded\<close> is the state after
  Phase 1 and \<open>pair_query\<close> the query of the direct fetch for \<^verbatim>\<open>user\<close>.
\<close>

definition pair_source :: "(string \<times> source_row list) list" where
  "pair_source =
     [(''org'', [[(''id'', Some 1)]]),
      (''user'', [[(''id'', Some 5), (''org_id'', Some 1)]])]"

definition pair_env :: "query env" where
  "pair_env = source_env pair_source ''org'' [''org'', ''user''] {1}"

definition pair_state :: state where
  "pair_state = \<lparr>objs = (\<lambda>_. no_table)
       (''org'' := plain_table ''org'' [] [],
        ''user'' := plain_table ''user'' [fk_column ''org_id'' ''org''] []),
     content_type_table = []\<rparr>"

definition pair_seeded :: state where
  "pair_seeded = set_ready ''org'' (update_pks ''org'' {1} pair_state)"

definition pair_query :: query where
  "pair_query = \<lparr>q_table = ''user'', q_table_obj = objs pair_seeded ''user'',
     q_column = pk_column ''user'' ''integer'', q_key_column_values = {1},
     q_primary_key_values = [], q_where_conditions_columns = Some [(''org_id'', {1})],
     q_is_revert = False\<rparr>"

text \<open>
  The cycle \<^verbatim>\<open>a, b\<close>: row 1 of \<^verbatim>\<open>a\<close> references row 5 of \<^verbatim>\<open>b\<close>, which references row 1
  of \<^verbatim>\<open>a\<close>. Neither table has the key column; \<^verbatim>\<open>a\<close> is the key table, the seed is
  \<open>{1}\<close>, and \<open>cycle_seeded\<close> is the state after Phase 1.
\<close>

definition cycle_source :: "(string \<times> source_row list) list" where
  "cycle_source =
     [(''a'', [[(''id'', Some 1), (''b_id'', Some 5)]]),
      (''b'', [[(''id'', Some 5), (''a_id'', Some 1)]])]"

definition cycle_env :: "query env" where
  "cycle_env = source_env cycle_source ''a'' [''a'', ''b''] {1}"

definition cycle_state :: state where
  "cycle_state = \<lparr>objs = (\<lambda>_. no_table)
       (''a'' := plain_table ''a'' [fk_column ''b_id'' ''b''] [''b''],
        ''b'' := plain_table ''b'' [fk_column ''a_id'' ''a''] [''a'']),
     content_type_table = []\<rparr>"

definition cycle_seeded :: state where
  "cycle_seeded = set_ready ''a'' (update_pks ''a'' {1} cycle_state)"

text \<open>
  What one visit of a column does to the state when the walk is at a table with the key
  column and depth 1 (\<open>key_column_step\<close>), and what the walk over all columns of such a
  table does (\<open>key_column_pass\<close>): the fetch is not restricted to a chunk, and the
  referenced table is not walked further.
\<close>

definition key_column_step :: "'sql env \<Rightarrow> string \<Rightarrow> DBColumn \<Rightarrow> state \<Rightarrow> state" where
  "key_column_step env t c s =
     (case constraint_table c of
        None \<Rightarrow> s
      | Some ct \<Rightarrow>
          if ct \<in> set (tables env) \<and> ct \<noteq> t \<and> \<not> with_key_column (objs s ct) then
            (case fst (get_table_column_values env t (Some c) [] None False s) of
               Inl e \<Rightarrow> s
             | Inr S \<Rightarrow> update_pks ct S s)
          else s)"

definition key_column_pass :: "'sql env \<Rightarrow> string \<Rightarrow> state \<Rightarrow> state" where
  "key_column_pass env t s = fold (key_column_step env t) (not_self_fk_columns (objs s t)) s"

text \<open>
  The staff schema: \<^verbatim>\<open>user\<close> has the key column \<^verbatim>\<open>org_id\<close>; its two rows belong to the
  seeded organisation and reference the rows 10 and 11 of \<^verbatim>\<open>dept\<close>.
\<close>

definition staff_source :: "(string \<times> source_row list) list" where
  "staff_source =
     [(''org'', [[(''id'', Some 1)]]),
      (''user'', [[(''id'', Some 1), (''org_id'', Some 1), (''dept_id'', Some 10)],
                  [(''id'', Some 2), (''org_id'', Some 1), (''dept_id'', Some 11)]]),
      (''dept'', [[(''id'', Some 10)], [(''id'', Some 11)]])]"

definition staff_env :: "query env" where
  "staff_env = source_env staff_source ''org'' [''org'', ''user'', ''dept''] {1}"

definition staff_state :: state where
  "staff_state = \<lparr>objs = (\<lambda>_. no_table)
       (''org'' := plain_table ''org'' [] [''user''],
        ''user'' := (plain_table ''user''
                       [fk_column ''org_id'' ''org'', fk_column ''dept_id'' ''dept''] [])
                    \<lparr>with_key_column := True\<rparr>,
        ''dept'' := plain_table ''dept'' [] [''user'']),
     content_type_table = []\<rparr>"

section \<open>Errors of the driver (C3)\<close>

text \<open>
  C3, counterexample. The claim has a \<^verbatim>\<open>PostgresSyntaxError\<close> of a per-chunk fetch
  re-raised and never turned into an empty result. On a source that answers the statement
  with \<^verbatim>\<open>PostgresSyntaxError\<close>, \<^verbatim>\<open>_get_table_column_values\<close> returns the empty set.
\<close>

theorem C3_counterexample:
  "get_table_column_values (failing_env PostgresSyntaxError) ''user''
       (Some (fk_column ''org_id'' ''org'')) [] None False empty_state =
     (Inr {}, [Fetch_call ''user'' (Some (fk_column ''org_id'' ''org'')) [] None False,
               Debug_sql ''SELECT'', Warning_sql PostgresSyntaxError ''SELECT''])"
  by (simp add: get_table_column_values_def failing_env_def fk_column_def
        get_constraint_table_ids_part_def)

text \<open>
  C3, as the code has it. In the collector's fetch of one statement a
  \<^verbatim>\<open>PostgresSyntaxError\<close> is logged with the statement and the result is what was
  collected so far; any other exception of the driver leaves the function, with no
  warning logged. In the transporter's transfer of one chunk \<^verbatim>\<open>UndefinedColumnError\<close>,
  \<^verbatim>\<open>NotNullViolationError\<close> and \<^verbatim>\<open>PostgresSyntaxError\<close> are logged with the statement and
  raised again, which ends the loop over the chunks of that table. \<^verbatim>\<open>collect\<close> itself
  returns normally: the phases are awaited through \<^verbatim>\<open>asyncio.wait\<close>, which keeps a task's
  exception in the task.
\<close>

theorem C3_error_paths:
  "(sql_nonempty env sql \<and> src_fetch env sql = Inl PostgresSyntaxError \<longrightarrow>
      get_constraint_table_ids_part env sql ids =
        (Inr ids, [Debug_sql sql, Warning_sql PostgresSyntaxError sql])) \<and>
   (sql_nonempty env sql \<and> src_fetch env sql = Inl e \<and> e \<noteq> PostgresSyntaxError \<longrightarrow>
      get_constraint_table_ids_part env sql ids = (Inl e, [Debug_sql sql])) \<and>
   (dst_fetch tr (get_transfer_records_sql tr table chunk) = Inl e' \<and>
    e' \<in> {UndefinedColumnError, NotNullViolationError, PostgresSyntaxError} \<longrightarrow>
      transfer_chunk_table_data tr table chunk s =
        (Inl e', s, [Warning_transfer e' table (get_transfer_records_sql tr table chunk)]) \<and>
      transfer_chunks tr table (chunk # chunks) s =
        (Inl e', s, [Warning_transfer e' table (get_transfer_records_sql tr table chunk)])) \<and>
   fst (collect env s) = Inr ()"
proof (intro conjI impI)
  assume "sql_nonempty env sql \<and> src_fetch env sql = Inl PostgresSyntaxError"
  then show "get_constraint_table_ids_part env sql ids =
      (Inr ids, [Debug_sql sql, Warning_sql PostgresSyntaxError sql])"
    by (simp add: get_constraint_table_ids_part_def)
next
  assume "sql_nonempty env sql \<and> src_fetch env sql = Inl e \<and> e \<noteq> PostgresSyntaxError"
  then show "get_constraint_table_ids_part env sql ids = (Inl e, [Debug_sql sql])"
    by (cases e) (simp_all add: get_constraint_table_ids_part_def)
next
  assume a: "dst_fetch tr (get_transfer_records_sql tr table chunk) = Inl e' \<and>
    e' \<in> {UndefinedColumnError, NotNullViolationError, PostgresSyntaxError}"
  then show c: "transfer_chunk_table_data tr table chunk s =
      (Inl e', s, [Warning_transfer e' table (get_transfer_records_sql tr table chunk)])"
    by (auto simp: transfer_chunk_table_data_def Let_def)
  then show "transfer_chunks tr table (chunk # chunks) s =
      (Inl e', s, [Warning_transfer e' table (get_transfer_records_sql tr table chunk)])"
    by simp
next
  show "fst (collect env s) = Inr ()"
    by (simp add: collect_def split: prod.splits)
qed

text \<open>C3, witness: the three premises hold on concrete failing connections.\<close>

theorem C3_error_paths_witness:
  "get_constraint_table_ids_part (failing_env PostgresSyntaxError) ''SELECT'' [] =
     (Inr [], [Debug_sql ''SELECT'', Warning_sql PostgresSyntaxError ''SELECT'']) \<and>
   get_constraint_table_ids_part (failing_env UndefinedColumnError) ''SELECT'' [] =
     (Inl UndefinedColumnError, [Debug_sql ''SELECT'']) \<and>
   transfer_chunks (failing_transporter NotNullViolationError) ''user'' [[10], [11]] empty_state =
     (Inl NotNullViolationError, empty_state,
      [Warning_transfer NotNullViolationError ''user'' ''INSERT''])"
  using C3_error_paths [where env = "failing_env PostgresSyntaxError" and sql = "''SELECT''"
      and ids = "[]" and tr = "failing_transporter NotNullViolationError" and table = "''user''"
      and chunk = "[10]" and e' = NotNullViolationError and s = empty_state
      and chunks = "[[11]]"]
    C3_error_paths [where env = "failing_env UndefinedColumnError" and sql = "''SELECT''"
      and ids = "[]" and e = UndefinedColumnError
      and tr = "failing_transporter NotNullViolationError" and table = "''user''"
      and chunk = "[10]" and e' = NotNullViolationError and s = empty_state
      and chunks = "[[11]]"]
  by (simp add: failing_env_def failing_transporter_def)

section \<open>The content-type catalog (C4)\<close>

text \<open>
  C4. The claim has a pair of the destination catalog that the source catalog lacks
  simply left out. The loop reads \<^verbatim>\<open>content_type_dict[key]\<close> for every key of the
  destination catalog: at the first such pair it raises \<^verbatim>\<open>KeyError\<close>, the pairs before
  it are stored and the pairs after it (here \<^verbatim>\<open>(blog, tag)\<close>, which both catalogs have)
  are lost.
\<close>

theorem C4_missing_source_pair:
  "prepare_content_type_tables catalog_env empty_state =
     (Inl KeyError, empty_state\<lparr>content_type_table := [(''blog_post'', 7)]\<rparr>, [])"
  by (simp add: prepare_content_type_tables_def catalog_env_def failing_env_def
        content_type_table_dict_of_def content_type_dict_of_def empty_state_def)

section \<open>The guard of the generic tables (C10)\<close>

text \<open>
  C10. When the related table's name is not a table of the destination schema, or when
  the data type of its primary key differs from that of the generic table's
  \<^verbatim>\<open>object_id\<close> column, \<^verbatim>\<open>_prepare_content_type_generic_data\<close> returns without raising
  and leaves the whole state, and so the generic table's \<open>need_transfer_pks\<close>, as it was.
\<close>

theorem C10_generic_guard:
  "(tables_get env rel_table_name = None \<longrightarrow>
      prepare_content_type_generic_data env target_table rel_table_name s = (Inr (), s, [])) \<and>
   (rel_table_name \<in> set (tables env) \<and> rel_table_name \<noteq> [] \<and>
    primary_key (objs s rel_table_name) = Some rel_pk \<and>
    get_column_by_name (objs s target) ''object_id'' = Some object_id_column \<and>
    data_type rel_pk \<noteq> data_type object_id_column \<longrightarrow>
      prepare_content_type_generic_data env (Some target) rel_table_name s = (Inr (), s, []))"
  by (simp add: prepare_content_type_generic_data_def tables_get_def)

text \<open>
  C10, witness: \<^verbatim>\<open>photo\<close> is in the catalog and not in the schema; the primary key of
  \<^verbatim>\<open>post\<close> is a uuid.
\<close>

theorem C10_generic_guard_witness:
  "prepare_content_type_generic_data generic_env (Some ''comment'') ''photo'' generic_state =
     (Inr (), generic_state, []) \<and>
   prepare_content_type_generic_data generic_env (Some ''comment'') ''post'' generic_state =
     (Inr (), generic_state, [])"
  using C10_generic_guard [where env = generic_env and rel_table_name = "''photo''"
      and target_table = "Some ''comment''" and s = generic_state]
    C10_generic_guard [where env = generic_env and rel_table_name = "''post''"
      and target = "''comment''" and s = generic_state
      and rel_pk = "pk_column ''post'' ''uuid''"
      and object_id_column = "plain_column ''object_id'' ''integer''"]
  by (simp add: generic_env_def failing_env_def generic_state_def tables_get_def
        get_column_by_name_def pk_column_def plain_column_def)

section \<open>What a run can change\<close>

lemma grows_refl [simp]: "grows F s s"
  by (simp add: grows_def)

lemma grows_trans: "grows F s s1 \<Longrightarrow> grows F s1 s2 \<Longrightarrow> grows F s s2"
  unfolding grows_def by (intro allI conjI) (metis, blast, blast, blast)

lemma grows_mono: "grows F s s' \<Longrightarrow> (\<And>u. F u \<subseteq> G u) \<Longrightarrow> grows G s s'"
  unfolding grows_def by blast

lemma grows_update_pks: "ids \<subseteq> F t \<Longrightarrow> grows F s (update_pks t ids s)"
  by (auto simp: grows_def update_pks_def static_part_def)

lemma grows_set_ready: "grows F s (set_ready t s)"
  by (auto simp: grows_def set_ready_def static_part_def)

lemma grows_set_revert: "grows F s (set_revert t r s)"
  by (auto simp: grows_def set_revert_def static_part_def)

lemma asyncio_wait_grows:
  assumes "\<And>x st r st' l. x \<in> set xs \<Longrightarrow> f x st = (r, st', l) \<Longrightarrow> grows F st st'"
    and "asyncio_wait f xs s = (s', l)"
  shows "grows F s s'"
  using assms
proof (induction xs arbitrary: s s' l)
  case Nil
  then show ?case by simp
next
  case (Cons x xs)
  obtain r s1 l1 where fx: "f x s = (r, s1, l1)" by (cases "f x s") auto
  obtain s2 l2 where w: "asyncio_wait f xs s1 = (s2, l2)" by (cases "asyncio_wait f xs s1") auto
  from Cons.prems(2) fx w have "s' = s2" by simp
  moreover have "grows F s s1" using Cons.prems(1) [of x s r s1 l1] fx by simp
  moreover have "grows F s1 s2"
  proof (rule Cons.IH [OF _ w])
    fix y st r st' l
    assume "y \<in> set xs" "f y st = (r, st', l)"
    then show "grows F st st'" using Cons.prems(1) [of y st r st' l] by simp
  qed
  ultimately show ?case using grows_trans by blast
qed

lemma get_constraint_table_ids_part_fetched:
  "get_constraint_table_ids_part env sql ids = (Inr ids', l) \<Longrightarrow>
     set ids' \<subseteq> set ids \<union> fetched env"
  unfolding get_constraint_table_ids_part_def fetched_def
  by (auto split: if_splits sum.splits error.splits) blast

lemma get_constraint_table_ids_fetched:
  "get_constraint_table_ids env sqls ids = (Inr ids', l) \<Longrightarrow>
     set ids' \<subseteq> set ids \<union> fetched env"
proof (induction sqls arbitrary: ids l)
  case Nil
  then show ?case by auto
next
  case (Cons sql sqls)
  from Cons.prems obtain ids1 l1 l2 where
    p: "get_constraint_table_ids_part env sql ids = (Inr ids1, l1)" and
    r: "get_constraint_table_ids env sqls ids1 = (Inr ids', l2)"
    by (auto split: prod.splits sum.splits)
  from get_constraint_table_ids_part_fetched [OF p] Cons.IH [OF r] show ?case by blast
qed

lemma get_table_column_values_fetched:
  "get_table_column_values env t c pks w rv s = (Inr S, l) \<Longrightarrow> S \<subseteq> fetched env"
  by (auto simp: get_table_column_values_def Let_def
      split: option.splits if_splits prod.splits sum.splits
      dest!: get_constraint_table_ids_fetched)

lemma asyncio_wait_rel:
  assumes "\<And>x st r st' l. x \<in> set xs \<Longrightarrow> f x st = (r, st', l) \<Longrightarrow> R st st'"
    and "\<And>a. R a a" and "\<And>a b c. R a b \<Longrightarrow> R b c \<Longrightarrow> R a c"
    and "asyncio_wait f xs s = (s', l)"
  shows "R s s'"
  using assms(1,4)
proof (induction xs arbitrary: s s' l)
  case Nil
  then show ?case using assms(2) by simp
next
  case (Cons x xs)
  obtain r s1 l1 where fx: "f x s = (r, s1, l1)" by (cases "f x s") auto
  obtain s2 l2 where w: "asyncio_wait f xs s1 = (s2, l2)" by (cases "asyncio_wait f xs s1") auto
  from Cons.prems(2) fx w have "s' = s2" by simp
  moreover have "R s s1" using Cons.prems(1) [of x s r s1 l1] fx by simp
  moreover have "R s1 s2"
  proof (rule Cons.IH [OF _ w])
    fix y st r st' l
    assume "y \<in> set xs" "f y st = (r, st', l)"
    then show "R st st'" using Cons.prems(1) [of y st r st' l] by simp
  qed
  ultimately show ?case using assms(3) by blast
qed

lemma recursively_preparing_rel:
  fixes R :: "state \<Rightarrow> state \<Rightarrow> bool"
  assumes refl: "\<And>a. R a a" and trans: "\<And>a b c. R a b \<Longrightarrow> R b c \<Longrightarrow> R a c"
  shows "recursively_preparing_foreign_table_chunk env ft ch stk d s = (r, s', l) \<Longrightarrow>
      (\<And>u ids a. ids \<subseteq> fetched env \<Longrightarrow> u \<in> set (tables env) \<Longrightarrow> u \<notin> set stk \<Longrightarrow> u \<noteq> ft \<Longrightarrow>
         R a (update_pks u ids a)) \<Longrightarrow> R s s'"
    and "recursively_preparing_foreign_table env t c pks stk d s = (r, s', l) \<Longrightarrow>
      (\<And>u ids a. ids \<subseteq> fetched env \<Longrightarrow> u \<in> set (tables env) \<Longrightarrow> u \<notin> set stk \<Longrightarrow>
         R a (update_pks u ids a)) \<Longrightarrow> R s s'"
    and "recursively_preparing_table env t pks stk d s = (r, s', l) \<Longrightarrow>
      (\<And>u ids a. ids \<subseteq> fetched env \<Longrightarrow> u \<in> set (tables env) \<Longrightarrow> u \<notin> set stk \<Longrightarrow> u \<noteq> t \<Longrightarrow>
         R a (update_pks u ids a)) \<Longrightarrow> R s s'"
proof (induction env ft ch stk d s and env t c pks stk d s and env t pks stk d s
    arbitrary: r s' l and r s' l and r s' l
    rule: recursively_preparing_foreign_table_chunk_recursively_preparing_foreign_table_recursively_preparing_table.induct)
  case (1 env ft ch stk d s)
  then show ?case
    by (simp add: recursively_preparing_foreign_table_chunk.simps)
next
  case (2 env t c pks stk d s)
  note prem = "2.prems"(1) [unfolded recursively_preparing_foreign_table.simps [of env t c pks stk d s]]
  note upd = "2.prems"(2)
  show ?case
  proof (cases "constraint_table c")
    case None
    with prem refl show ?thesis by simp
  next
    case (Some ct)
    show ?thesis
    proof (cases "tables_getitem env ct")
      case (Inl e)
      with prem Some refl show ?thesis by simp
    next
      case (Inr ft)
      show ?thesis
      proof (cases "ft \<in> set stk \<or> with_key_column (objs s ft)")
        case True
        with prem Some Inr refl show ?thesis by auto
      next
        case False
        define fetch where "fetch =
          (if with_key_column (objs s t)
           then get_table_column_values env t (Some c) [] None False s
           else get_table_column_values env t (Some c)
                  (if \<not> is_full_transferred (objs s t) then pks else []) None False s)"
        obtain x y where xy: "fetch = (x, y)" by (cases fetch)
        show ?thesis
        proof (cases x)
          case (Inl e)
          with prem Some Inr False xy refl show ?thesis by (simp add: fetch_def [symmetric])
        next
          case (Inr S)
          note xS = this
          have S: "S \<subseteq> fetched env"
            using xy xS
            by (auto simp: fetch_def split: if_splits dest: get_table_column_values_fetched)
          define D where "D = S - need_transfer_pks (objs s ft)"
          show ?thesis
          proof (cases "S \<noteq> {} \<and> D \<noteq> {}")
            case False
            with prem Some \<open>tables_getitem env ct = Inr ft\<close> \<open>\<not> (ft \<in> set stk \<or> with_key_column (objs s ft))\<close>
              xy xS refl
            show ?thesis by (auto simp: fetch_def [symmetric] D_def Let_def split: if_splits)
          next
            case True
            obtain s2 l2 where w: "asyncio_wait
                (\<lambda>chunk st. recursively_preparing_foreign_table_chunk env ft chunk stk d st)
                (make_chunks (iter_pks env D) (CHUNK_SIZE env)) (update_pks ft D s) = (s2, l2)"
              by (cases "asyncio_wait
                (\<lambda>chunk st. recursively_preparing_foreign_table_chunk env ft chunk stk d st)
                (make_chunks (iter_pks env D) (CHUNK_SIZE env)) (update_pks ft D s)") auto
            have s': "s' = s2"
              using prem Some \<open>tables_getitem env ct = Inr ft\<close>
                \<open>\<not> (ft \<in> set stk \<or> with_key_column (objs s ft))\<close> xy xS True w
              by (auto simp: fetch_def [symmetric] D_def [symmetric] Let_def split: if_splits)
            have ft: "ft \<in> set (tables env)"
              using \<open>tables_getitem env ct = Inr ft\<close>
              by (auto simp: tables_getitem_def split: if_splits)
            have g1: "R s (update_pks ft D s)"
              by (rule upd) (use S ft \<open>\<not> (ft \<in> set stk \<or> with_key_column (objs s ft))\<close> in \<open>auto simp: D_def\<close>)
            have g2: "R (update_pks ft D s) s2"
            proof (rule asyncio_wait_rel [OF _ refl trans w])
              fix ch st r' st' l'
              assume ch: "ch \<in> set (make_chunks (iter_pks env D) (CHUNK_SIZE env))"
                and run: "recursively_preparing_foreign_table_chunk env ft ch stk d st = (r', st', l')"
              show "R st st'"
                by (rule "2.IH" [OF Some \<open>tables_getitem env ct = Inr ft\<close>
                      \<open>\<not> (ft \<in> set stk \<or> with_key_column (objs s ft))\<close>
                      xy [unfolded fetch_def, symmetric] xS _ D_def _ _ run])
                  (use True ch upd in \<open>auto simp: D_def\<close>)
            qed
            show ?thesis unfolding s' by (rule trans [OF g1 g2])
          qed
        qed
      qed
    qed
  qed
next
  case (3 env t pks stk d s)
  note upd = "3.prems"(2)
  show ?case
  proof (cases "d = 0")
    case True
    with "3.prems"(1) refl show ?thesis by (simp add: recursively_preparing_table.simps)
  next
    case False
    obtain s1 l1 where w: "asyncio_wait
        (\<lambda>column st. recursively_preparing_foreign_table env t column pks (stk @ [t]) d st)
        (not_self_fk_columns (objs s t)) s = (s1, l1)"
      by (cases "asyncio_wait
        (\<lambda>column st. recursively_preparing_foreign_table env t column pks (stk @ [t]) d st)
        (not_self_fk_columns (objs s t)) s") auto
    with "3.prems"(1) False have "s' = s1" by (simp add: recursively_preparing_table.simps)
    moreover have "R s s1"
    proof (rule asyncio_wait_rel [OF _ refl trans w])
      fix c st r' st' l'
      assume "c \<in> set (not_self_fk_columns (objs s t))"
        and "recursively_preparing_foreign_table env t c pks (stk @ [t]) d st = (r', st', l')"
      then show "R st st'" using "3.IH" [OF False] upd by auto
    qed
    ultimately show ?thesis by simp
  qed
qed

lemma collect_revert_table_ids_rel:
  assumes "collect_revert_table_ids env rev_table fkc table s = (r, s', l)"
    and "\<And>a. R a a"
    and "\<And>ids a. ids \<subseteq> fetched env \<Longrightarrow> R a (update_pks table ids a)"
  shows "R s s'"
  using assms
  by (auto simp: collect_revert_table_ids_def Let_def
      split: prod.splits sum.splits if_splits dest: get_table_column_values_fetched)

lemma collect_importing_revert_tables_data_rel:
  assumes run: "collect_importing_revert_tables_data env rev_table_name table s = (r, s', l)"
    and refl: "\<And>a. R a a" and trans: "\<And>a b c. R a b \<Longrightarrow> R b c \<Longrightarrow> R a c"
    and upd: "\<And>ids a. ids \<subseteq> fetched env \<Longrightarrow> R a (update_pks table ids a)"
    and rev: "\<And>n a. R a (set_revert table n a)"
  shows "R s s'"
proof (cases "tables_getitem env rev_table_name")
  case (Inl e)
  with run refl show ?thesis by (simp add: collect_importing_revert_tables_data_def)
next
  case (Inr rev_table)
  show ?thesis
  proof (cases "fks_with_key_column (objs s rev_table) \<noteq> [] \<and> \<not> with_key_column (objs s table)")
    case True
    with run Inr refl show ?thesis by (auto simp: collect_importing_revert_tables_data_def)
  next
    case False
    show ?thesis
    proof (cases "need_transfer_pks (objs s rev_table) \<noteq> {}")
      case nonempty: True
      obtain s1 l1 where w: "asyncio_wait
          (\<lambda>fkc st. collect_revert_table_ids env rev_table fkc table st)
          (get_columns_by_constraint_table_name (objs s rev_table) table [FOREIGN_KEY]) s = (s1, l1)"
        by (cases "asyncio_wait
          (\<lambda>fkc st. collect_revert_table_ids env rev_table fkc table st)
          (get_columns_by_constraint_table_name (objs s rev_table) table [FOREIGN_KEY]) s") auto
      have "R s s1"
        by (rule asyncio_wait_rel [OF _ refl trans w])
          (rule collect_revert_table_ids_rel [OF _ refl upd], assumption+)
      moreover have "s' = set_revert table rev_table_name s1"
        using run Inr False nonempty w
        by (auto simp: collect_importing_revert_tables_data_def)
      ultimately show ?thesis using trans [OF _ rev] by simp
    next
      case empty: False
      then have "s' = set_revert table rev_table_name s"
        using run Inr \<open>\<not> (fks_with_key_column (objs s rev_table) \<noteq> [] \<and> \<not> with_key_column (objs s table))\<close>
        by (auto simp: collect_importing_revert_tables_data_def)
      then show ?thesis using rev by simp
    qed
  qed
qed

lemma collect_importing_fk_tables_records_ids_rel:
  assumes run: "collect_importing_fk_tables_records_ids env table s = (r, s', l)"
    and refl: "\<And>a. R a a" and trans: "\<And>a b c. R a b \<Longrightarrow> R b c \<Longrightarrow> R a c"
    and upd: "\<And>ids a. ids \<subseteq> fetched env \<Longrightarrow> R a (update_pks table ids a)"
    and rev: "\<And>n a. R a (set_revert table n a)"
    and rdy: "\<And>a. R a (set_ready table a)"
  shows "R s s'"
proof -
  define fks where "fks = fk_columns_of (objs s table)"
  note run' = run [unfolded collect_importing_fk_tables_records_ids_def Let_def, folded fks_def]
  show ?thesis
  proof (cases "where_conditions_loop env s fks [] False")
    case (Inl e)
    with run' refl show ?thesis by simp
  next
    case (Inr p)
    obtain wc wfl where p: "p = (wc, wfl)" by (cases p)
    note loop = Inr [unfolded p]
    show ?thesis
    proof (cases "fks \<noteq> [] \<and> wc = [] \<and> \<not> wfl")
      case True
      with run' refl loop show ?thesis by simp
    next
      case guard1: False
      obtain x y where f: "get_table_column_values env table (primary_key (objs s table)) []
          (Some wc) False s = (x, y)"
        by (cases "get_table_column_values env table (primary_key (objs s table)) []
          (Some wc) False s")
      show ?thesis
      proof (cases x)
        case (Inl e)
        with run' refl loop guard1 f show ?thesis by simp
      next
        case (Inr fk_ids)
        note f' = f [unfolded Inr]
        have fk_ids: "fk_ids \<subseteq> fetched env"
          using f' by (auto dest: get_table_column_values_fetched)
        show ?thesis
        proof (cases "fks \<noteq> [] \<and> wc \<noteq> [] \<and> fk_ids = {}")
          case True
          with run' refl loop guard1 f' show ?thesis by simp
        next
          case guard2: False
          obtain s1 l1 where w: "asyncio_wait
              (\<lambda>rev_table_name st. collect_importing_revert_tables_data env rev_table_name table st)
              (map fst (revert_fk_tables (objs s table))) (update_pks table fk_ids s) = (s1, l1)"
            by (cases "asyncio_wait
              (\<lambda>rev_table_name st. collect_importing_revert_tables_data env rev_table_name table st)
              (map fst (revert_fk_tables (objs s table))) (update_pks table fk_ids s)") auto
          have r1: "R s (update_pks table fk_ids s)" by (rule upd [OF fk_ids])
          have r2: "R (update_pks table fk_ids s) s1"
            by (rule asyncio_wait_rel [OF _ refl trans w])
              (rule collect_importing_revert_tables_data_rel [OF _ refl trans upd rev], assumption+)
          have r3: "R s s1" by (rule trans [OF r1 r2])
          show ?thesis
          proof (cases "need_transfer_pks (objs s1 table) = {}")
            case False
            have "s' = set_ready table s1"
              using run' loop guard1 f' guard2 w False by simp
            then show ?thesis using trans [OF r3 rdy] by simp
          next
            case True
            obtain x2 y2 where f2: "get_table_column_values env table
                (primary_key (objs s1 table)) [] None False s1 = (x2, y2)"
              by (cases "get_table_column_values env table
                (primary_key (objs s1 table)) [] None False s1")
            show ?thesis
            proof (cases x2)
              case (Inl e)
              have "s' = s1"
                using run' loop guard1 f' guard2 w True f2 [unfolded Inl] by simp
              then show ?thesis using r3 by simp
            next
              case (Inr all_records)
              have s': "s' = set_ready table (update_pks table all_records s1)"
                using run' loop guard1 f' guard2 w True f2 [unfolded Inr] by simp
              have "all_records \<subseteq> fetched env"
                using f2 Inr by (auto dest: get_table_column_values_fetched)
              then have "R s1 (update_pks table all_records s1)" by (rule upd)
              then have "R s (update_pks table all_records s1)" by (rule trans [OF r3])
              then show ?thesis unfolding s' by (rule trans) (rule rdy)
            qed
          qed
        qed
      qed
    qed
  qed
qed

lemma stableD:
  assumes "stable env R"
  shows "R a a" and "R a b \<Longrightarrow> R b c \<Longrightarrow> R a c"
    and "ids \<subseteq> fetched env \<Longrightarrow> R a (update_pks u ids a)"
    and "R a (set_revert u n a)" and "R a (set_ready u a)"
    and "R a (a\<lparr>content_type_table := x\<rparr>)"
  using assms unfolding stable_def by blast+

lemma asyncio_wait_stable:
  assumes st: "stable env R"
    and step: "\<And>x st r st' l. x \<in> set xs \<Longrightarrow> f x st = (r, st', l) \<Longrightarrow> R st st'"
    and run: "asyncio_wait f xs s = (s', l)"
  shows "R s s'"
  by (rule asyncio_wait_rel [where R = R, OF step stableD(1) [OF st] stableD(2) [OF st] run])

lemma collect_importing_fk_tables_records_ids_stable:
  assumes st: "stable env R"
    and run: "collect_importing_fk_tables_records_ids env table s = (r, s', l)"
  shows "R s s'"
  by (rule collect_importing_fk_tables_records_ids_rel [where R = R, OF run])
    (rule stableD [OF st]; assumption)+

lemma collect_not_transferred_stable:
  assumes st: "stable env R"
  shows "collect_not_transferred env order s = (r, s', l) \<Longrightarrow> R s s'"
proof (induction order arbitrary: s r s' l)
  case Nil
  then show ?case using stableD(1) [OF st] by simp
next
  case (Cons n ns)
  show ?case
  proof (cases "tables_getitem env n")
    case (Inl e)
    with Cons.prems stableD(1) [OF st] show ?thesis by simp
  next
    case (Inr t)
    show ?thesis
    proof (cases "is_ready_for_transferring (objs s t)")
      case True
      with Cons.prems Inr have "collect_not_transferred env ns s = (r, s', l)" by simp
      then show ?thesis by (rule Cons.IH)
    next
      case False
      obtain r1 s1 l1 where c: "collect_importing_fk_tables_records_ids env t s = (r1, s1, l1)"
        by (cases "collect_importing_fk_tables_records_ids env t s") auto
      have r1: "R s s1" by (rule collect_importing_fk_tables_records_ids_stable [OF st c])
      show ?thesis
      proof (cases r1)
        case (Inl e)
        with Cons.prems \<open>tables_getitem env n = Inr t\<close> False c have "s' = s1" by simp
        with r1 show ?thesis by simp
      next
        case (Inr u)
        obtain r2 s2 l2 where n: "collect_not_transferred env ns s1 = (r2, s2, l2)"
          by (cases "collect_not_transferred env ns s1") auto
        with Cons.prems \<open>tables_getitem env n = Inr t\<close> False c Inr have "s' = s2" by simp
        moreover have "R s1 s2" by (rule Cons.IH [OF n])
        ultimately show ?thesis using stableD(2) [OF st r1] by simp
      qed
    qed
  qed
qed

lemma recursively_preparing_table_stable:
  assumes st: "stable env R"
    and run: "recursively_preparing_table env t pks stk d s = (r, s', l)"
  shows "R s s'"
proof (rule recursively_preparing_rel(3) [where R = R, OF _ _ run])
  show "R a a" for a by (rule stableD(1) [OF st])
  show "R a c" if "R a b" "R b c" for a b c using that by (rule stableD(2) [OF st])
  show "R a (update_pks u ids a)" if "ids \<subseteq> fetched env" for u ids a
    using that by (rule stableD(3) [OF st])
qed

lemma prepare_tables_with_key_column_stable:
  assumes st: "stable env R"
    and run: "prepare_tables_with_key_column env table s = (r, s', l)"
  shows "R s s'"
proof -
  obtain x y where f: "get_table_column_values env table (primary_key (objs s table)) [] None
      False s = (x, y)"
    by (cases "get_table_column_values env table (primary_key (objs s table)) [] None False s")
  show ?thesis
  proof (cases x)
    case (Inl e)
    with run f stableD(1) [OF st] show ?thesis
      by (simp add: prepare_tables_with_key_column_def)
  next
    case (Inr pks)
    note f' = f [unfolded Inr]
    have pks: "pks \<subseteq> fetched env" using f' by (auto dest: get_table_column_values_fetched)
    show ?thesis
    proof (cases "pks = {}")
      case True
      with run f' have "s' = set_ready table s" by (simp add: prepare_tables_with_key_column_def)
      then show ?thesis using stableD(5) [OF st] by simp
    next
      case False
      obtain s1 l1 where w: "asyncio_wait
          (\<lambda>chunk st. recursively_preparing_table_with_key_column env table chunk st)
          (make_chunks (iter_pks env pks) (CHUNK_SIZE env)) (update_pks table pks s) = (s1, l1)"
        by (cases "asyncio_wait
          (\<lambda>chunk st. recursively_preparing_table_with_key_column env table chunk st)
          (make_chunks (iter_pks env pks) (CHUNK_SIZE env)) (update_pks table pks s)") auto
      with run f' False have s': "s' = set_ready table s1"
        by (simp add: prepare_tables_with_key_column_def)
      have r1: "R s (update_pks table pks s)" by (rule stableD(3) [OF st pks])
      have r2: "R (update_pks table pks s) s1"
        by (rule asyncio_wait_stable [OF st _ w])
          (auto simp: recursively_preparing_table_with_key_column_def
            intro: recursively_preparing_table_stable [OF st])
      show ?thesis unfolding s'
        by (rule stableD(2) [OF st stableD(2) [OF st r1 r2] stableD(5) [OF st]])
    qed
  qed
qed

lemma prepare_common_tables_stable:
  assumes st: "stable env R"
    and run: "prepare_common_tables env s = (r, s', l)"
  shows "R s s'"
proof -
  obtain s1 l1 where w: "asyncio_wait (\<lambda>table st. prepare_tables_with_key_column env table st)
      (tables_with_key_column env s) s = (s1, l1)"
    by (cases "asyncio_wait (\<lambda>table st. prepare_tables_with_key_column env table st)
      (tables_with_key_column env s) s") auto
  have r1: "R s s1"
    by (rule asyncio_wait_stable [OF st _ w]) (rule prepare_tables_with_key_column_stable [OF st])
  show ?thesis
  proof (cases "sorted_not_transferred env s1")
    case (Inl e)
    with run w have "s' = s1" by (simp add: prepare_common_tables_def)
    with r1 show ?thesis by simp
  next
    case (Inr order)
    obtain r2 s2 l2 where c: "collect_not_transferred env order s1 = (r2, s2, l2)"
      by (cases "collect_not_transferred env order s1") auto
    with run w Inr have "s' = s2" by (simp add: prepare_common_tables_def)
    moreover have "R s1 s2" by (rule collect_not_transferred_stable [OF st c])
    ultimately show ?thesis using stableD(2) [OF st r1] by simp
  qed
qed

lemma fill_content_type_table_rel:
  assumes refl: "\<And>a. R a a" and trans: "\<And>a b c. R a b \<Longrightarrow> R b c \<Longrightarrow> R a c"
    and ctt: "\<And>x a. R a (a\<lparr>content_type_table := x\<rparr>)"
  shows "fill_content_type_table d1 d2 keys s = (r, s') \<Longrightarrow> R s s'"
proof (induction keys arbitrary: s)
  case Nil
  then show ?case using refl by simp
next
  case (Cons k ks)
  show ?case
  proof (cases "map_of d2 k")
    case None
    with Cons.prems refl show ?thesis by simp
  next
    case (Some v)
    show ?thesis
    proof (cases "map_of d1 k")
      case None
      with Cons.prems Some refl show ?thesis by simp
    next
      case (Some tn)
      with Cons.prems \<open>map_of d2 k = Some v\<close>
      have "fill_content_type_table d1 d2 ks
          (s\<lparr>content_type_table := AList.update tn v (content_type_table s)\<rparr>) = (r, s')"
        by simp
      then have "R (s\<lparr>content_type_table := AList.update tn v (content_type_table s)\<rparr>) s'"
        by (rule Cons.IH)
      then show ?thesis by (rule trans [OF ctt])
    qed
  qed
qed

lemma prepare_content_type_tables_rel:
  assumes run: "prepare_content_type_tables env s = (r, s', l)"
    and refl: "\<And>a. R a a" and trans: "\<And>a b c. R a b \<Longrightarrow> R b c \<Longrightarrow> R a c"
    and ctt: "\<And>x a. R a (a\<lparr>content_type_table := x\<rparr>)"
  shows "R s s'"
  using run refl fill_content_type_table_rel [where R = R, OF refl trans ctt]
  by (auto simp: prepare_content_type_tables_def Let_def split: sum.splits prod.splits)

lemma prepare_content_type_generic_data_rel:
  assumes run: "prepare_content_type_generic_data env (Some target) rel_table_name s = (r, s', l)"
    and refl: "\<And>a. R a a"
    and upd: "\<And>ids a. ids \<subseteq> fetched env \<Longrightarrow> R a (update_pks target ids a)"
  shows "R s s'"
  using run refl upd
  by (auto simp: prepare_content_type_generic_data_def
      split: if_splits option.splits sum.splits prod.splits
      dest: get_table_column_values_fetched)

lemma prepare_generic_table_data_rel:
  assumes run: "prepare_generic_table_data env target s = (r, s', l)"
    and refl: "\<And>a. R a a" and trans: "\<And>a b c. R a b \<Longrightarrow> R b c \<Longrightarrow> R a c"
    and upd: "\<And>u ids a. ids \<subseteq> fetched env \<Longrightarrow> R a (update_pks u ids a)"
  shows "R s s'"
proof (cases target)
  case None
  with run refl show ?thesis by (simp add: prepare_generic_table_data_def)
next
  case (Some t)
  obtain s1 l1 where w: "asyncio_wait
      (\<lambda>rel_table_name st. prepare_content_type_generic_data env (Some t) rel_table_name st)
      (map fst (content_type_table s)) s = (s1, l1)"
    by (cases "asyncio_wait
      (\<lambda>rel_table_name st. prepare_content_type_generic_data env (Some t) rel_table_name st)
      (map fst (content_type_table s)) s") auto
  with run Some have "s' = s1" by (simp add: prepare_generic_table_data_def)
  moreover have "R s s1"
    by (rule asyncio_wait_rel [where R = R, OF _ refl trans w])
      (rule prepare_content_type_generic_data_rel [where R = R],
        assumption, rule refl, rule upd)
  ultimately show ?thesis by simp
qed

lemma collect_generic_tables_records_ids_rel:
  assumes run: "collect_generic_tables_records_ids env s = (r, s', l)"
    and refl: "\<And>a. R a a" and trans: "\<And>a b c. R a b \<Longrightarrow> R b c \<Longrightarrow> R a c"
    and upd: "\<And>u ids a. ids \<subseteq> fetched env \<Longrightarrow> R a (update_pks u ids a)"
    and ctt: "\<And>x a. R a (a\<lparr>content_type_table := x\<rparr>)"
  shows "R s s'"
proof -
  obtain s1 l1 where w1: "asyncio_wait (\<lambda>_ st. prepare_content_type_tables env st) [()] s = (s1, l1)"
    by (cases "asyncio_wait (\<lambda>_ st. prepare_content_type_tables env st) [()] s") auto
  define names where "names = filter (\<lambda>n. n \<noteq> [])
      (iter_names env (set (TABLES_WITH_GENERIC_FOREIGN_KEY env) - set (EXCLUDED_TABLES env)))"
  obtain s2 l2 where w2: "asyncio_wait
      (\<lambda>table_name st. prepare_generic_table_data env (tables_get env table_name) st)
      names s1 = (s2, l2)"
    by (cases "asyncio_wait
      (\<lambda>table_name st. prepare_generic_table_data env (tables_get env table_name) st)
      names s1") auto
  have s': "s' = s2"
    using run w1 w2 unfolding collect_generic_tables_records_ids_def Let_def names_def by simp
  have r1: "R s s1"
    by (rule asyncio_wait_rel [where R = R, OF _ refl trans w1])
      (rule prepare_content_type_tables_rel [where R = R], assumption, rule refl,
        erule trans, assumption, rule ctt)
  have r2: "R s1 s2"
    by (rule asyncio_wait_rel [where R = R, OF _ refl trans w2])
      (rule prepare_generic_table_data_rel [where R = R], assumption, rule refl,
        erule trans, assumption, erule upd)
  show ?thesis unfolding s' by (rule trans [OF r1 r2])
qed

lemma collect_generic_tables_records_ids_stable:
  assumes st: "stable env R"
    and run: "collect_generic_tables_records_ids env s = (r, s', l)"
  shows "R s s'"
proof (rule collect_generic_tables_records_ids_rel [where R = R, OF run])
  show "R a a" for a by (rule stableD(1) [OF st])
  show "R a c" if "R a b" "R b c" for a b c using that by (rule stableD(2) [OF st])
  show "R a (update_pks u ids a)" if "ids \<subseteq> fetched env" for u ids a
    using that by (rule stableD(3) [OF st])
  show "R a (a\<lparr>content_type_table := x\<rparr>)" for x a by (rule stableD(6) [OF st])
qed

lemma collect_stable:
  assumes st: "stable env R"
    and key: "\<And>a. R a (update_pks (KEY_TABLE_NAME env) (key_column_values env) a)"
    and run: "collect env s = (r, s', l)"
  shows "R s s'"
proof -
  obtain s1 l1 where w1: "asyncio_wait (\<lambda>_ st. collect_key_table_values env st) [()] s = (s1, l1)"
    by (cases "asyncio_wait (\<lambda>_ st. collect_key_table_values env st) [()] s") auto
  obtain s2 l2 where w2: "asyncio_wait (\<lambda>_ st. prepare_common_tables env st) [()] s1 = (s2, l2)"
    by (cases "asyncio_wait (\<lambda>_ st. prepare_common_tables env st) [()] s1") auto
  obtain s3 l3 where w3:
    "asyncio_wait (\<lambda>_ st. collect_generic_tables_records_ids env st) [()] s2 = (s3, l3)"
    by (cases "asyncio_wait (\<lambda>_ st. collect_generic_tables_records_ids env st) [()] s2") auto
  have "s' = s3" using run w1 w2 w3 unfolding collect_def by simp
  moreover have "R s s1"
  proof (rule asyncio_wait_stable [OF st _ w1])
    fix x st r st' l
    assume "collect_key_table_values env st = (r, st', l)"
    then show "R st st'"
      using stableD(1) [OF st] stableD(2) [OF st key stableD(5) [OF st]]
      by (auto simp: collect_key_table_values_def tables_getitem_def split: if_splits)
  qed
  moreover have "R s1 s2"
    by (rule asyncio_wait_stable [OF st _ w2]) (rule prepare_common_tables_stable [OF st])
  moreover have "R s2 s3"
    by (rule asyncio_wait_stable [OF st _ w3])
      (rule collect_generic_tables_records_ids_stable [OF st])
  ultimately show ?thesis using stableD(2) [OF st] by blast
qed

section \<open>The branches of the Phase 2b step\<close>

lemma importing_loop_error:
  assumes "where_conditions_loop env s (fk_columns_of (objs s t)) [] False = Inl e"
  shows "collect_importing_fk_tables_records_ids env t s = (Inl e, s, [Info_start_collecting t])"
  using assms by (simp add: collect_importing_fk_tables_records_ids_def Let_def)

lemma importing_guard1:
  assumes "where_conditions_loop env s (fk_columns_of (objs s t)) [] False = Inr (wc, wfl)"
    and "fk_columns_of (objs s t) \<noteq> [] \<and> wc = [] \<and> \<not> wfl"
  shows "collect_importing_fk_tables_records_ids env t s = (Inr (), s, [Info_start_collecting t])"
  using assms by (simp add: collect_importing_fk_tables_records_ids_def Let_def)

lemma importing_fetch_error:
  assumes "where_conditions_loop env s (fk_columns_of (objs s t)) [] False = Inr (wc, wfl)"
    and "\<not> (fk_columns_of (objs s t) \<noteq> [] \<and> wc = [] \<and> \<not> wfl)"
    and "get_table_column_values env t (primary_key (objs s t)) [] (Some wc) False s = (Inl e, l0)"
  shows "collect_importing_fk_tables_records_ids env t s =
     (Inl e, s, Info_start_collecting t # l0)"
  using assms by (simp add: collect_importing_fk_tables_records_ids_def Let_def)

lemma importing_guard2:
  assumes "where_conditions_loop env s (fk_columns_of (objs s t)) [] False = Inr (wc, wfl)"
    and "\<not> (fk_columns_of (objs s t) \<noteq> [] \<and> wc = [] \<and> \<not> wfl)"
    and "get_table_column_values env t (primary_key (objs s t)) [] (Some wc) False s =
      (Inr fk_ids, l0)"
    and "fk_columns_of (objs s t) \<noteq> [] \<and> wc \<noteq> [] \<and> fk_ids = {}"
  shows "collect_importing_fk_tables_records_ids env t s =
     (Inr (), s, Info_start_collecting t # l0)"
  using assms by (simp add: collect_importing_fk_tables_records_ids_def Let_def)

lemma importing_done:
  assumes "where_conditions_loop env s (fk_columns_of (objs s t)) [] False = Inr (wc, wfl)"
    and "\<not> (fk_columns_of (objs s t) \<noteq> [] \<and> wc = [] \<and> \<not> wfl)"
    and "get_table_column_values env t (primary_key (objs s t)) [] (Some wc) False s =
      (Inr fk_ids, l0)"
    and "\<not> (fk_columns_of (objs s t) \<noteq> [] \<and> wc \<noteq> [] \<and> fk_ids = {})"
    and "asyncio_wait (\<lambda>rev_table_name st.
            collect_importing_revert_tables_data env rev_table_name t st)
          (map fst (revert_fk_tables (objs s t))) (update_pks t fk_ids s) = (s1, l1)"
    and "need_transfer_pks (objs s1 t) \<noteq> {}"
  shows "collect_importing_fk_tables_records_ids env t s =
     (Inr (), set_ready t s1,
      Info_start_collecting t # l0 @ l1 @ [Info_finished_collecting t])"
  using assms by (simp add: collect_importing_fk_tables_records_ids_def Let_def)

lemma importing_pull_error:
  assumes "where_conditions_loop env s (fk_columns_of (objs s t)) [] False = Inr (wc, wfl)"
    and "\<not> (fk_columns_of (objs s t) \<noteq> [] \<and> wc = [] \<and> \<not> wfl)"
    and "get_table_column_values env t (primary_key (objs s t)) [] (Some wc) False s =
      (Inr fk_ids, l0)"
    and "\<not> (fk_columns_of (objs s t) \<noteq> [] \<and> wc \<noteq> [] \<and> fk_ids = {})"
    and "asyncio_wait (\<lambda>rev_table_name st.
            collect_importing_revert_tables_data env rev_table_name t st)
          (map fst (revert_fk_tables (objs s t))) (update_pks t fk_ids s) = (s1, l1)"
    and "need_transfer_pks (objs s1 t) = {}"
    and "get_table_column_values env t (primary_key (objs s1 t)) [] None False s1 = (Inl e, l2)"
  shows "collect_importing_fk_tables_records_ids env t s =
     (Inl e, s1, Info_start_collecting t # l0 @ l1 @ l2)"
  using assms by (simp add: collect_importing_fk_tables_records_ids_def Let_def)

lemma importing_pull_all:
  assumes "where_conditions_loop env s (fk_columns_of (objs s t)) [] False = Inr (wc, wfl)"
    and "\<not> (fk_columns_of (objs s t) \<noteq> [] \<and> wc = [] \<and> \<not> wfl)"
    and "get_table_column_values env t (primary_key (objs s t)) [] (Some wc) False s =
      (Inr fk_ids, l0)"
    and "\<not> (fk_columns_of (objs s t) \<noteq> [] \<and> wc \<noteq> [] \<and> fk_ids = {})"
    and "asyncio_wait (\<lambda>rev_table_name st.
            collect_importing_revert_tables_data env rev_table_name t st)
          (map fst (revert_fk_tables (objs s t))) (update_pks t fk_ids s) = (s1, l1)"
    and "need_transfer_pks (objs s1 t) = {}"
    and "get_table_column_values env t (primary_key (objs s1 t)) [] None False s1 =
      (Inr all_records, l2)"
  shows "collect_importing_fk_tables_records_ids env t s =
     (Inr (), set_ready t (update_pks t all_records s1),
      Info_start_collecting t # l0 @ l1 @ l2 @ [Info_finished_collecting t])"
  using assms by (simp add: collect_importing_fk_tables_records_ids_def Let_def)



section \<open>The fetch calls a run records\<close>









section \<open>The run on the chain\<close>

lemma chain_sort:
  "topological_sort_spec [(''org'', ''dept''), (''dept'', ''region'')] =
     ([''region'', ''dept'', ''org''], [])"
  by (simp add: topological_sort_spec_def graph_nodes_def on_cycle_def parents_of_def Let_def)

lemma chain_env_simps:
  "tables chain_env = [''org'', ''dept'', ''region'']"
  "KEY_TABLE_NAME chain_env = ''org''"
  "key_column_values chain_env = {1}"
  "EXCLUDED_TABLES chain_env = []"
  "TABLES_WITH_GENERIC_FOREIGN_KEY chain_env = []"
  "topological_sort chain_env = topological_sort_spec"
  "iter_names chain_env = sorted_list_of_set"
  by (simp_all add: chain_env_def source_env_def)

lemma chain_guard:
  assumes "objs s ''dept'' = objs chain_state ''dept''"
    and "need_transfer_pks (objs s ''region'') = {}"
  shows "collect_importing_fk_tables_records_ids chain_env ''dept'' s =
     (Inr (), s, [Info_start_collecting ''dept''])"
  using assms
  by (simp add: collect_importing_fk_tables_records_ids_def fk_columns_of_def chain_state_def
      plain_table_def no_table_def fk_column_def tables_getitem_def chain_env_simps Let_def)


lemma collect_importing_fk_tables_records_ids_other:
  assumes "collect_importing_fk_tables_records_ids env table s = (r, s', l)" and "u \<noteq> table"
  shows "objs s' u = objs s u"
  by (rule collect_importing_fk_tables_records_ids_rel
      [where R = "\<lambda>a b. objs b u = objs a u", OF assms(1)])
    (use assms(2) in \<open>simp_all add: update_pks_def set_revert_def set_ready_def\<close>)

lemma chain_seeded_objs:
  "objs chain_seeded ''dept'' = objs chain_state ''dept''"
  "objs chain_seeded ''region'' = objs chain_state ''region''"
  "objs chain_seeded ''org'' = (objs chain_state ''org'')
     \<lparr>need_transfer_pks := {1}, is_ready_for_transferring := True\<rparr>"
  by (simp_all add: chain_seeded_def set_ready_def update_pks_def chain_state_def
      plain_table_def no_table_def)

lemma chain_phase1:
  "asyncio_wait (\<lambda>_ st. collect_key_table_values chain_env st) [()] chain_state =
     (chain_seeded, [])"
  by (simp add: collect_key_table_values_def tables_getitem_def chain_env_simps chain_seeded_def)

lemma chain_order:
  "sorted_not_transferred chain_env chain_seeded = Inr [''org'', ''dept'', ''region'']"
  by (simp add: sorted_not_transferred_def tables_without_generics_def chain_env_simps
      chain_seeded_objs chain_state_def plain_table_def no_table_def fk_column_def chain_sort)

lemma chain_phase2:
  assumes "prepare_common_tables chain_env chain_seeded = (r, s', l)"
  shows "objs s' ''dept'' = objs chain_seeded ''dept'' \<and> objs s' ''org'' = objs chain_seeded ''org''"
proof -
  have twk: "tables_with_key_column chain_env chain_seeded = []"
    by (simp add: tables_with_key_column_def chain_env_simps chain_seeded_objs chain_state_def
        plain_table_def no_table_def)
  have dept: "collect_importing_fk_tables_records_ids chain_env ''dept'' chain_seeded =
      (Inr (), chain_seeded, [Info_start_collecting ''dept''])"
    by (rule chain_guard)
      (simp_all add: chain_seeded_objs chain_state_def plain_table_def no_table_def)
  obtain r3 s3 l3 where region:
    "collect_importing_fk_tables_records_ids chain_env ''region'' chain_seeded = (r3, s3, l3)"
    by (cases "collect_importing_fk_tables_records_ids chain_env ''region'' chain_seeded") auto
  have other: "objs s3 ''dept'' = objs chain_seeded ''dept''" "objs s3 ''org'' = objs chain_seeded ''org''"
    using collect_importing_fk_tables_records_ids_other [OF region] by simp_all
  have ready: "is_ready_for_transferring (objs chain_seeded ''org'')"
    "\<not> is_ready_for_transferring (objs chain_seeded ''dept'')"
    "\<not> is_ready_for_transferring (objs chain_seeded ''region'')"
    by (simp_all add: chain_seeded_objs chain_state_def plain_table_def no_table_def)
  have "s' = s3"
    using assms twk chain_order dept region ready
    by (cases r3) (simp_all add: prepare_common_tables_def tables_getitem_def chain_env_simps)
  with other show ?thesis by simp
qed

lemma chain_phase3:
  assumes "collect_generic_tables_records_ids chain_env s = (r, s', l)"
  shows "s' = s"
  using assms
  by (simp add: collect_generic_tables_records_ids_def prepare_content_type_tables_def
      content_type_table_dict_of_def content_type_dict_of_def chain_env_simps chain_env_def
      source_env_def)

lemma chain_run:
  "objs (fst (snd (collect chain_env chain_state))) ''dept'' = objs chain_state ''dept'' \<and>
   objs (fst (snd (collect chain_env chain_state))) ''org'' =
     (objs chain_state ''org'')\<lparr>need_transfer_pks := {1}, is_ready_for_transferring := True\<rparr>"
proof -
  obtain r2 s2 l2 where p2: "prepare_common_tables chain_env chain_seeded = (r2, s2, l2)"
    by (cases "prepare_common_tables chain_env chain_seeded") auto
  obtain r3 s3 l3 where p3: "collect_generic_tables_records_ids chain_env s2 = (r3, s3, l3)"
    by (cases "collect_generic_tables_records_ids chain_env s2") auto
  have "fst (snd (collect chain_env chain_state)) = s3"
    using chain_phase1 p2 p3 by (simp add: collect_def)
  also have "s3 = s2" by (rule chain_phase3 [OF p3])
  finally show ?thesis using chain_phase2 [OF p2] chain_seeded_objs by simp
qed

section \<open>Readiness (C2)\<close>













section \<open>The pull-all fetch (C7)\<close>










section \<open>Where selected keys come from (C5)\<close>

lemma stable_grows:
  assumes "\<And>u. fetched env \<subseteq> G u"
  shows "stable env (grows G)"
  unfolding stable_def
proof (intro conjI allI impI)
  show "grows G a a" for a by simp
  show "grows G a c" if "grows G a b" "grows G b c" for a b c
    using that by (rule grows_trans)
  show "grows G a (update_pks u ids a)" if "ids \<subseteq> fetched env" for u ids a
    by (rule grows_update_pks) (use that assms in blast)
  show "grows G a (set_revert u n a)" for u n a by (rule grows_set_revert)
  show "grows G a (set_ready u a)" for u a by (rule grows_set_ready)
  show "grows G a (a\<lparr>content_type_table := x\<rparr>)" for x a by (simp add: grows_def)
qed

lemma collect_grows:
  "grows (\<lambda>u. fetched env \<union> (if u = KEY_TABLE_NAME env then key_column_values env else {}))
     s (fst (snd (collect env s)))"
proof (rule collect_stable [where r = "fst (collect env s)" and l = "snd (snd (collect env s))"])
  show "stable env (grows (\<lambda>u. fetched env \<union>
      (if u = KEY_TABLE_NAME env then key_column_values env else {})))"
    by (rule stable_grows) simp
  show "grows (\<lambda>u. fetched env \<union> (if u = KEY_TABLE_NAME env then key_column_values env else {}))
      a (update_pks (KEY_TABLE_NAME env) (key_column_values env) a)" for a
    by (rule grows_update_pks) simp
  show "collect env s = (fst (collect env s), fst (snd (collect env s)), snd (snd (collect env s)))"
    by simp
qed

lemma collect_key_seed:
  assumes "KEY_TABLE_NAME env \<in> set (tables env)"
  shows "key_column_values env \<subseteq>
     need_transfer_pks (objs (fst (snd (collect env s))) (KEY_TABLE_NAME env))"
proof -
  define s1 where "s1 = set_ready (KEY_TABLE_NAME env)
      (update_pks (KEY_TABLE_NAME env) (key_column_values env) s)"
  let ?R = "\<lambda>a b. need_transfer_pks (objs a (KEY_TABLE_NAME env))
      \<subseteq> need_transfer_pks (objs b (KEY_TABLE_NAME env))"
  have st: "stable env ?R"
    unfolding stable_def by (auto simp: update_pks_def set_revert_def set_ready_def)
  have p1: "asyncio_wait (\<lambda>_ st. collect_key_table_values env st) [()] s = (s1, [])"
    using assms by (simp add: collect_key_table_values_def tables_getitem_def s1_def)
  obtain s2 l2 where w2: "asyncio_wait (\<lambda>_ st. prepare_common_tables env st) [()] s1 = (s2, l2)"
    by (cases "asyncio_wait (\<lambda>_ st. prepare_common_tables env st) [()] s1") auto
  obtain s3 l3 where w3:
    "asyncio_wait (\<lambda>_ st. collect_generic_tables_records_ids env st) [()] s2 = (s3, l3)"
    by (cases "asyncio_wait (\<lambda>_ st. collect_generic_tables_records_ids env st) [()] s2") auto
  have s3: "fst (snd (collect env s)) = s3" using p1 w2 w3 by (simp add: collect_def)
  have "?R s1 s2"
    by (rule asyncio_wait_stable [OF st _ w2]) (rule prepare_common_tables_stable [OF st])
  moreover have "?R s2 s3"
    by (rule asyncio_wait_stable [OF st _ w3])
      (rule collect_generic_tables_records_ids_stable [OF st])
  moreover have "key_column_values env \<subseteq> need_transfer_pks (objs s1 (KEY_TABLE_NAME env))"
    by (simp add: s1_def set_ready_def update_pks_def)
  ultimately show ?thesis unfolding s3 by blast
qed

text \<open>
  C5, counterexample. The claim has every selected key present in the source table, the
  key table included. With the seed \<open>{1, 2, 99}\<close> and the rows 1, 2, 3 in \<^verbatim>\<open>org\<close>, the key
  table ends with 99 selected, which the source does not hold: Phase 1 copies the seed
  without a query.
\<close>

theorem C5_counterexample:
  "99 \<in> need_transfer_pks (objs (fst (snd (collect key_env key_state))) ''org'') \<and>
   99 \<notin> set (source_pks key_source ''org'')"
proof -
  have "key_column_values key_env \<subseteq>
      need_transfer_pks (objs (fst (snd (collect key_env key_state))) (KEY_TABLE_NAME key_env))"
    by (rule collect_key_seed) (simp add: key_env_def source_env_def)
  then have "99 \<in> need_transfer_pks (objs (fst (snd (collect key_env key_state))) ''org'')"
    by (simp add: key_env_def source_env_def)
  moreover have "99 \<notin> set (source_pks key_source ''org'')"
    by (simp add: source_pks_def key_source_def row_value_def List.map_filter_def)
  ultimately show ?thesis by simp
qed

text \<open>
  Every elementary step of a run adds to a table the values of one fetch, made for a
  column that leads to that table; the log of the fetch holds its statements.
\<close>

lemma static_part_fields:
  "columns (static_part t) = columns t"
  "not_self_fk_columns (static_part t) = not_self_fk_columns t"
  "primary_key (static_part t) = primary_key t"
  by (simp_all add: static_part_def)

lemma same_schema_fields:
  assumes "same_schema a b"
  shows "columns (objs b u) = columns (objs a u)"
    and "not_self_fk_columns (objs b u) = not_self_fk_columns (objs a u)"
    and "primary_key (objs b u) = primary_key (objs a u)"
proof -
  have eq: "static_part (objs b u) = static_part (objs a u)"
    using assms by (simp add: same_schema_def)
  show "columns (objs b u) = columns (objs a u)"
    using arg_cong [OF eq, of columns] by (simp add: static_part_fields)
  show "not_self_fk_columns (objs b u) = not_self_fk_columns (objs a u)"
    using arg_cong [OF eq, of not_self_fk_columns] by (simp add: static_part_fields)
  show "primary_key (objs b u) = primary_key (objs a u)"
    using arg_cong [OF eq, of primary_key] by (simp add: static_part_fields)
qed

lemma same_schema_refl: "same_schema a a"
  by (simp add: same_schema_def)

lemma same_schema_trans: "same_schema a b \<Longrightarrow> same_schema b c \<Longrightarrow> same_schema a c"
  by (simp add: same_schema_def)

lemma same_schema_targets: "same_schema a b \<Longrightarrow> targets b q T = targets a q T"
  by (simp add: targets_def same_schema_fields)

lemma same_schema_answered: "same_schema a b \<Longrightarrow> answered env b l T v = answered env a l T v"
  by (simp add: answered_def same_schema_targets)

lemma answered_mono: "answered env s l T v \<Longrightarrow> set l \<subseteq> set l' \<Longrightarrow> answered env s l' T v"
  unfolding answered_def by blast

lemma prov_same_schema: "prov env l s s' \<Longrightarrow> same_schema s s'"
  by (simp add: prov_def)

lemma prov_refl: "prov env l s s"
  by (simp add: prov_def same_schema_refl)

lemma prov_mono: "prov env l s s' \<Longrightarrow> set l \<subseteq> set l' \<Longrightarrow> prov env l' s s'"
  unfolding prov_def using answered_mono by blast

lemma prov_trans:
  assumes ab: "prov env l1 a b" and bc: "prov env l2 b c"
  shows "prov env (l1 @ l2) a c"
  unfolding prov_def
proof (intro conjI allI impI)
  show "same_schema a c"
    using ab bc by (auto simp: prov_def intro: same_schema_trans)
next
  fix T v
  assume "v \<in> need_transfer_pks (objs c T)"
  with bc have "v \<in> need_transfer_pks (objs b T) \<or> answered env b l2 T v"
    by (simp add: prov_def)
  then show "v \<in> need_transfer_pks (objs a T) \<or> answered env a (l1 @ l2) T v"
  proof
    assume "v \<in> need_transfer_pks (objs b T)"
    with ab have "v \<in> need_transfer_pks (objs a T) \<or> answered env a l1 T v"
      by (simp add: prov_def)
    then show ?thesis using answered_mono [of env a l1 T v "l1 @ l2"] by auto
  next
    assume "answered env b l2 T v"
    then have "answered env a l2 T v"
      using same_schema_answered [OF prov_same_schema [OF ab], of env l2 T v] by simp
    then show ?thesis using answered_mono [of env a l2 T v "l1 @ l2"] by auto
  qed
qed

lemma prov_same_pks:
  assumes "prov env l s s'"
    and "\<And>u. static_part (objs s'' u) = static_part (objs s' u)"
    and "\<And>u. need_transfer_pks (objs s'' u) = need_transfer_pks (objs s' u)"
  shows "prov env l s s''"
  using assms unfolding prov_def same_schema_def by simp

lemma prov_set_ready: "prov env l s s' \<Longrightarrow> prov env l s (set_ready u s')"
  by (erule prov_same_pks) (simp_all add: set_ready_def static_part_def)

lemma prov_set_revert: "prov env l s s' \<Longrightarrow> prov env l s (set_revert u n s')"
  by (erule prov_same_pks) (simp_all add: set_revert_def static_part_def)

lemma part_answered:
  assumes "get_constraint_table_ids_part env sql ids = (Inr ids', l)" and "v \<in> set ids'"
  shows "v \<in> set ids \<or>
     (Debug_sql sql \<in> set l \<and> (\<exists>rows. src_fetch env sql = Inr rows \<and> Some v \<in> set rows))"
  using assms
  by (auto simp: get_constraint_table_ids_part_def split: if_splits sum.splits error.splits)

lemma ids_answered:
  "get_constraint_table_ids env sqls ids = (Inr ids', l) \<Longrightarrow> v \<in> set ids' \<Longrightarrow>
     v \<in> set ids \<or>
     (\<exists>sql \<in> set sqls. Debug_sql sql \<in> set l \<and>
        (\<exists>rows. src_fetch env sql = Inr rows \<and> Some v \<in> set rows))"
proof (induction sqls arbitrary: ids l)
  case Nil
  then show ?case by auto
next
  case (Cons sql sqls)
  from Cons.prems(1) obtain ids1 l1 l2 where
    p: "get_constraint_table_ids_part env sql ids = (Inr ids1, l1)" and
    r: "get_constraint_table_ids env sqls ids1 = (Inr ids', l2)" and l: "l = l1 @ l2"
    by (auto split: prod.splits sum.splits)
  from Cons.IH [OF r Cons.prems(2)] show ?case
  proof
    assume "v \<in> set ids1"
    from part_answered [OF p this] show ?thesis using l by auto
  next
    assume "\<exists>sql \<in> set sqls. Debug_sql sql \<in> set l2 \<and>
        (\<exists>rows. src_fetch env sql = Inr rows \<and> Some v \<in> set rows)"
    then show ?thesis using l by auto
  qed
qed

lemma fetch_statement:
  assumes "get_table_column_values env t col pks w rv s = (Inr S, l)" and "v \<in> S"
  shows "\<exists>c sql rows. col = Some c \<and>
     sql \<in> set (get_table_column_values_sql env
       \<lparr>q_table = t, q_table_obj = objs s t, q_column = c,
        q_key_column_values = key_column_values env, q_primary_key_values = pks,
        q_where_conditions_columns = w, q_is_revert = rv\<rparr>) \<and>
     Debug_sql sql \<in> set l \<and> src_fetch env sql = Inr rows \<and> Some v \<in> set rows"
proof (cases col)
  case None
  with assms show ?thesis by (simp add: get_table_column_values_def)
next
  case (Some c)
  let ?q = "\<lparr>q_table = t, q_table_obj = objs s t, q_column = c,
        q_key_column_values = key_column_values env, q_primary_key_values = pks,
        q_where_conditions_columns = w, q_is_revert = rv\<rparr>"
  from assms Some obtain ids l0 where
    g: "get_constraint_table_ids env (get_table_column_values_sql env ?q) [] = (Inr ids, l0)"
    and S: "S = set ids" and l: "l = Fetch_call t col pks w rv # l0"
    by (auto simp: get_table_column_values_def Let_def
        split: option.splits if_splits prod.splits sum.splits)
  from ids_answered [OF g, of v] assms(2) S
  obtain sql rows where "sql \<in> set (get_table_column_values_sql env ?q)"
    "Debug_sql sql \<in> set l0" "src_fetch env sql = Inr rows" "Some v \<in> set rows"
    by auto
  with l Some show ?thesis by auto
qed

lemma fetch_answered:
  assumes f: "get_table_column_values env t col pks w rv s = (Inr S, l)" and v: "v \<in> S"
    and link: "\<And>c. col = Some c \<Longrightarrow>
      (constraint_table c = Some T \<and>
       (c \<in> set (columns (objs s t)) \<or> c \<in> set (not_self_fk_columns (objs s t)))) \<or>
      (t = T \<and> primary_key (objs s T) = Some c)"
  shows "answered env s l T v"
proof -
  from fetch_statement [OF f v] obtain c sql rows where
    c: "col = Some c" and
    sql: "sql \<in> set (get_table_column_values_sql env
       \<lparr>q_table = t, q_table_obj = objs s t, q_column = c,
        q_key_column_values = key_column_values env, q_primary_key_values = pks,
        q_where_conditions_columns = w, q_is_revert = rv\<rparr>)" and
    rest: "Debug_sql sql \<in> set l" "src_fetch env sql = Inr rows" "Some v \<in> set rows"
    by blast
  have "targets s \<lparr>q_table = t, q_table_obj = objs s t, q_column = c,
        q_key_column_values = key_column_values env, q_primary_key_values = pks,
        q_where_conditions_columns = w, q_is_revert = rv\<rparr> T"
    using link [OF c] by (simp add: targets_def)
  with sql rest show ?thesis unfolding answered_def by blast
qed

lemma prov_update:
  assumes f: "get_table_column_values env t col pks w rv s = (Inr S, l)" and sub: "S' \<subseteq> S"
    and link: "\<And>c. col = Some c \<Longrightarrow>
      (constraint_table c = Some T \<and>
       (c \<in> set (columns (objs s t)) \<or> c \<in> set (not_self_fk_columns (objs s t)))) \<or>
      (t = T \<and> primary_key (objs s T) = Some c)"
  shows "prov env l s (update_pks T S' s)"
  unfolding prov_def
proof (intro conjI allI impI)
  show "same_schema s (update_pks T S' s)"
    by (simp add: same_schema_def update_pks_def static_part_def)
next
  fix U v
  assume "v \<in> need_transfer_pks (objs (update_pks T S' s) U)"
  then have "v \<in> need_transfer_pks (objs s U) \<or> (U = T \<and> v \<in> S)"
    using sub by (auto simp: update_pks_def split: if_splits)
  then show "v \<in> need_transfer_pks (objs s U) \<or> answered env s l U v"
    using fetch_answered [OF f _ link, of v] by auto
qed

lemma asyncio_wait_prov:
  assumes step: "\<And>x st r st' l. x \<in> set xs \<Longrightarrow> same_schema s0 st \<Longrightarrow> f x st = (r, st', l) \<Longrightarrow>
      prov env l st st'"
    and run: "asyncio_wait f xs s = (s', l)" and ss: "same_schema s0 s"
  shows "prov env l s s'"
  using assms
proof (induction xs arbitrary: s s' l)
  case Nil
  then show ?case by (simp add: prov_refl)
next
  case (Cons x xs)
  obtain r s1 l1 where fx: "f x s = (r, s1, l1)" by (cases "f x s") auto
  obtain s2 l2 where w: "asyncio_wait f xs s1 = (s2, l2)" by (cases "asyncio_wait f xs s1") auto
  from Cons.prems(2) fx w have eq: "s' = s2" "l = l1 @ l2" by simp_all
  have p1: "prov env l1 s s1"
    by (rule Cons.prems(1) [OF _ Cons.prems(3) fx]) simp
  have ss1: "same_schema s0 s1"
    by (rule same_schema_trans [OF Cons.prems(3) prov_same_schema [OF p1]])
  have p2: "prov env l2 s1 s2"
  proof (rule Cons.IH [OF _ w ss1])
    fix y st r st' l
    assume "y \<in> set xs" "same_schema s0 st" "f y st = (r, st', l)"
    then show "prov env l st st'" using Cons.prems(1) [of y st r st' l] by simp
  qed
  show ?case unfolding eq by (rule prov_trans [OF p1 p2])
qed

lemma recursively_preparing_prov:
  shows "recursively_preparing_foreign_table_chunk env ft ch stk d s = (r, s', l) \<Longrightarrow>
      prov env l s s'"
    and "recursively_preparing_foreign_table env t c pks stk d s = (r, s', l) \<Longrightarrow>
      c \<in> set (not_self_fk_columns (objs s t)) \<Longrightarrow> prov env l s s'"
    and "recursively_preparing_table env t pks stk d s = (r, s', l) \<Longrightarrow> prov env l s s'"
proof (induction env ft ch stk d s and env t c pks stk d s and env t pks stk d s
    arbitrary: r s' l and r s' l and r s' l
    rule: recursively_preparing_foreign_table_chunk_recursively_preparing_foreign_table_recursively_preparing_table.induct)
  case (1 env ft ch stk d s)
  from "1.prems" have run: "recursively_preparing_table env ft ch stk
      (if \<not> with_key_column (objs s ft) then d - 1 else d) s = (r, s', l)"
    by (simp add: recursively_preparing_foreign_table_chunk.simps)
  show ?case by (rule "1.IH" [OF refl run])
next
  case (2 env t c pks stk d s)
  note prem = "2.prems"(1) [unfolded recursively_preparing_foreign_table.simps [of env t c pks stk d s]]
  note col = "2.prems"(2)
  show ?case
  proof (cases "constraint_table c")
    case None
    with prem show ?thesis by (auto simp: prov_refl)
  next
    case (Some ct)
    show ?thesis
    proof (cases "tables_getitem env ct")
      case (Inl e)
      with prem Some show ?thesis by (auto simp: prov_refl)
    next
      case (Inr ft)
      then have ft: "ft = ct" by (auto simp: tables_getitem_def split: if_splits)
      show ?thesis
      proof (cases "ft \<in> set stk \<or> with_key_column (objs s ft)")
        case True
        with prem Some Inr show ?thesis by (auto simp: prov_refl)
      next
        case False
        define pks' where "pks' = (if with_key_column (objs s t) then []
           else if \<not> is_full_transferred (objs s t) then pks else [])"
        define fetch where "fetch =
          (if with_key_column (objs s t)
           then get_table_column_values env t (Some c) [] None False s
           else get_table_column_values env t (Some c)
                  (if \<not> is_full_transferred (objs s t) then pks else []) None False s)"
        have fetch': "fetch = get_table_column_values env t (Some c) pks' None False s"
          by (simp add: fetch_def pks'_def)
        obtain x y where xy: "fetch = (x, y)" by (cases fetch)
        show ?thesis
        proof (cases x)
          case (Inl e)
          with prem Some Inr False xy show ?thesis
            by (simp add: fetch_def [symmetric] prov_refl)
        next
          case (Inr S)
          note xS = this
          define D where "D = S - need_transfer_pks (objs s ft)"
          have g1: "prov env y s (update_pks ft D s)"
          proof (rule prov_update [where S = S])
            show "get_table_column_values env t (Some c) pks' None False s = (Inr S, y)"
              using xy xS fetch' by simp
            show "D \<subseteq> S" by (auto simp: D_def)
            show "(constraint_table c' = Some ft \<and>
                (c' \<in> set (columns (objs s t)) \<or> c' \<in> set (not_self_fk_columns (objs s t)))) \<or>
               (t = ft \<and> primary_key (objs s ft) = Some c')" if "Some c = Some c'" for c'
              using that Some ft col by simp
          qed
          show ?thesis
          proof (cases "S \<noteq> {} \<and> D \<noteq> {}")
            case False
            with prem Some \<open>tables_getitem env ct = Inr ft\<close> \<open>\<not> (ft \<in> set stk \<or> with_key_column (objs s ft))\<close>
              xy xS
            have "s' = s" "l = y"
              by (auto simp: fetch_def [symmetric] D_def Let_def split: if_splits)
            then show ?thesis by (simp add: prov_refl)
          next
            case True
            obtain s2 l2 where w: "asyncio_wait
                (\<lambda>chunk st. recursively_preparing_foreign_table_chunk env ft chunk stk d st)
                (make_chunks (iter_pks env D) (CHUNK_SIZE env)) (update_pks ft D s) = (s2, l2)"
              by (cases "asyncio_wait
                (\<lambda>chunk st. recursively_preparing_foreign_table_chunk env ft chunk stk d st)
                (make_chunks (iter_pks env D) (CHUNK_SIZE env)) (update_pks ft D s)") auto
            have s': "s' = s2" "l = y @ l2"
              using prem Some \<open>tables_getitem env ct = Inr ft\<close>
                \<open>\<not> (ft \<in> set stk \<or> with_key_column (objs s ft))\<close> xy xS True w
              by (auto simp: fetch_def [symmetric] D_def [symmetric] Let_def split: if_splits)
            have g2: "prov env l2 (update_pks ft D s) s2"
            proof (rule asyncio_wait_prov [OF _ w same_schema_refl])
              fix ch st r' st' l'
              assume ch: "ch \<in> set (make_chunks (iter_pks env D) (CHUNK_SIZE env))"
                and run: "recursively_preparing_foreign_table_chunk env ft ch stk d st = (r', st', l')"
              show "prov env l' st st'"
                by (rule "2.IH" [OF Some \<open>tables_getitem env ct = Inr ft\<close>
                      \<open>\<not> (ft \<in> set stk \<or> with_key_column (objs s ft))\<close>
                      xy [unfolded fetch_def, symmetric] xS _ D_def _ _ run])
                  (use True ch in \<open>auto simp: D_def\<close>)
            qed
            show ?thesis unfolding s' by (rule prov_trans [OF g1 g2])
          qed
        qed
      qed
    qed
  qed
next
  case (3 env t pks stk d s)
  show ?case
  proof (cases "d = 0")
    case True
    with "3.prems"(1) show ?thesis by (auto simp: recursively_preparing_table.simps prov_refl)
  next
    case False
    obtain s1 l1 where w: "asyncio_wait
        (\<lambda>column st. recursively_preparing_foreign_table env t column pks (stk @ [t]) d st)
        (not_self_fk_columns (objs s t)) s = (s1, l1)"
      by (cases "asyncio_wait
        (\<lambda>column st. recursively_preparing_foreign_table env t column pks (stk @ [t]) d st)
        (not_self_fk_columns (objs s t)) s") auto
    with "3.prems"(1) False have eq: "s' = s1" "l = Debug_stack (stk @ [t]) # l1"
      by (simp_all add: recursively_preparing_table.simps)
    have "prov env l1 s s1"
    proof (rule asyncio_wait_prov [OF _ w same_schema_refl])
      fix c st r' st' l'
      assume c: "c \<in> set (not_self_fk_columns (objs s t))" and ss: "same_schema s st"
        and run: "recursively_preparing_foreign_table env t c pks (stk @ [t]) d st = (r', st', l')"
      have "c \<in> set (not_self_fk_columns (objs st t))"
        using c same_schema_fields(2) [OF ss] by simp
      then show "prov env l' st st'" by (rule "3.IH" [OF False c run])
    qed
    then show ?thesis unfolding eq by (rule prov_mono) auto
  qed
qed

lemma prepare_tables_with_key_column_prov:
  assumes run: "prepare_tables_with_key_column env table s = (r, s', l)"
  shows "prov env l s s'"
proof -
  obtain x y where f: "get_table_column_values env table (primary_key (objs s table)) [] None
      False s = (x, y)"
    by (cases "get_table_column_values env table (primary_key (objs s table)) [] None False s")
  show ?thesis
  proof (cases x)
    case (Inl e)
    with run f show ?thesis by (auto simp: prepare_tables_with_key_column_def prov_refl)
  next
    case (Inr S)
    have g1: "prov env y s (update_pks table S s)"
      by (rule prov_update [OF f [unfolded Inr] subset_refl]) simp
    show ?thesis
    proof (cases "S = {}")
      case True
      with run f Inr have "s' = set_ready table s"
        by (auto simp: prepare_tables_with_key_column_def)
      then show ?thesis by (simp add: prov_set_ready prov_refl)
    next
      case False
      obtain s1 l1 where w: "asyncio_wait
          (\<lambda>chunk st. recursively_preparing_table_with_key_column env table chunk st)
          (make_chunks (iter_pks env S) (CHUNK_SIZE env)) (update_pks table S s) = (s1, l1)"
        by (cases "asyncio_wait
          (\<lambda>chunk st. recursively_preparing_table_with_key_column env table chunk st)
          (make_chunks (iter_pks env S) (CHUNK_SIZE env)) (update_pks table S s)") auto
      from run f Inr False w have eq: "s' = set_ready table s1"
        "l = Info_start_key_column table # y @ l1 @ [Info_finished_key_column table]"
        by (auto simp: prepare_tables_with_key_column_def)
      have g2: "prov env l1 (update_pks table S s) s1"
        by (rule asyncio_wait_prov [OF _ w same_schema_refl])
          (auto simp: recursively_preparing_table_with_key_column_def
            dest: recursively_preparing_prov(3))
      have "prov env (y @ l1) s s1" by (rule prov_trans [OF g1 g2])
      then have "prov env l s s1" unfolding eq by (rule prov_mono) auto
      then show ?thesis unfolding eq(1) by (rule prov_set_ready)
    qed
  qed
qed

lemma collect_revert_table_ids_prov:
  assumes run: "collect_revert_table_ids env rev_table fkc table s = (r, s', l)"
    and col: "fkc \<in> set (columns (objs s rev_table))"
    and ct: "constraint_table fkc = Some table"
  shows "prov env l s s'"
proof -
  define pks where "pks = (if \<not> is_full_transferred (objs s rev_table)
      then iter_pks env (need_transfer_pks (objs s rev_table)) else [])"
  obtain x y where f: "get_table_column_values env rev_table (Some fkc) pks None True s = (x, y)"
    by (cases "get_table_column_values env rev_table (Some fkc) pks None True s")
  show ?thesis
  proof (cases x)
    case (Inl e)
    with run f show ?thesis
      by (simp add: collect_revert_table_ids_def Let_def pks_def [symmetric] prov_refl)
  next
    case (Inr S)
    have g: "prov env y s (update_pks table S s)"
      by (rule prov_update [OF f [unfolded Inr] subset_refl]) (use col ct in simp)
    from run f Inr have "l = y" "s' = (if S \<noteq> {} then update_pks table S s else s)"
      by (simp_all add: collect_revert_table_ids_def Let_def pks_def [symmetric])
    with g show ?thesis by (simp add: prov_refl)
  qed
qed

lemma collect_importing_revert_tables_data_prov:
  assumes run: "collect_importing_revert_tables_data env rev_table_name table s = (r, s', l)"
  shows "prov env l s s'"
proof (cases "tables_getitem env rev_table_name")
  case (Inl e)
  with run show ?thesis by (simp add: collect_importing_revert_tables_data_def prov_refl)
next
  case (Inr rt)
  show ?thesis
  proof (cases "fks_with_key_column (objs s rt) \<noteq> [] \<and> \<not> with_key_column (objs s table)")
    case True
    with run Inr show ?thesis by (auto simp: collect_importing_revert_tables_data_def prov_refl)
  next
    case False
    show ?thesis
    proof (cases "need_transfer_pks (objs s rt) \<noteq> {}")
      case empty: False
      with run Inr False have "s' = set_revert table rev_table_name s"
        by (auto simp: collect_importing_revert_tables_data_def)
      then show ?thesis by (simp add: prov_set_revert prov_refl)
    next
      case True
      obtain s1 l1 where w: "asyncio_wait
          (\<lambda>fkc st. collect_revert_table_ids env rt fkc table st)
          (get_columns_by_constraint_table_name (objs s rt) table [FOREIGN_KEY]) s = (s1, l1)"
        by (cases "asyncio_wait
          (\<lambda>fkc st. collect_revert_table_ids env rt fkc table st)
          (get_columns_by_constraint_table_name (objs s rt) table [FOREIGN_KEY]) s") auto
      from run Inr False True w have eq: "s' = set_revert table rev_table_name s1"
        "l = Info_prepare_revert rev_table_name # l1"
        by (auto simp: collect_importing_revert_tables_data_def)
      have "prov env l1 s s1"
      proof (rule asyncio_wait_prov [OF _ w same_schema_refl])
        fix c st r' st' l'
        assume c: "c \<in> set (get_columns_by_constraint_table_name (objs s rt) table [FOREIGN_KEY])"
          and ss: "same_schema s st"
          and run': "collect_revert_table_ids env rt c table st = (r', st', l')"
        from c have "c \<in> set (columns (objs s rt))" "constraint_table c = Some table"
          by (auto simp: get_columns_by_constraint_table_name_def)
        with same_schema_fields(1) [OF ss, of rt]
        show "prov env l' st st'"
          by (intro collect_revert_table_ids_prov [OF run']) simp_all
      qed
      then have "prov env l s s1" unfolding eq by (rule prov_mono) auto
      then show ?thesis unfolding eq(1) by (rule prov_set_revert)
    qed
  qed
qed

lemma collect_importing_fk_tables_records_ids_prov:
  assumes run: "collect_importing_fk_tables_records_ids env t s = (r, s', l)"
  shows "prov env l s s'"
proof (cases "where_conditions_loop env s (fk_columns_of (objs s t)) [] False")
  case (Inl e)
  from importing_loop_error [OF this] run show ?thesis by (simp add: prov_refl)
next
  case (Inr p)
  obtain wc wfl where p: "p = (wc, wfl)" by (cases p)
  note loop = Inr [unfolded p]
  show ?thesis
  proof (cases "fk_columns_of (objs s t) \<noteq> [] \<and> wc = [] \<and> \<not> wfl")
    case True
    from importing_guard1 [OF loop True] run show ?thesis by (simp add: prov_refl)
  next
    case g1: False
    obtain x l0 where f: "get_table_column_values env t (primary_key (objs s t)) []
        (Some wc) False s = (x, l0)"
      by (cases "get_table_column_values env t (primary_key (objs s t)) [] (Some wc) False s")
    show ?thesis
    proof (cases x)
      case (Inl e)
      from importing_fetch_error [OF loop g1 f [unfolded Inl]] run show ?thesis
        by (simp add: prov_refl)
    next
      case (Inr fk_ids)
      note f' = f [unfolded Inr]
      show ?thesis
      proof (cases "fk_columns_of (objs s t) \<noteq> [] \<and> wc \<noteq> [] \<and> fk_ids = {}")
        case True
        from importing_guard2 [OF loop g1 f' True] run show ?thesis by (simp add: prov_refl)
      next
        case g2: False
        have p0: "prov env l0 s (update_pks t fk_ids s)"
          by (rule prov_update [OF f' subset_refl]) simp
        obtain s1 l1 where w: "asyncio_wait (\<lambda>rev_table_name st.
              collect_importing_revert_tables_data env rev_table_name t st)
            (map fst (revert_fk_tables (objs s t))) (update_pks t fk_ids s) = (s1, l1)"
          by (cases "asyncio_wait (\<lambda>rev_table_name st.
              collect_importing_revert_tables_data env rev_table_name t st)
            (map fst (revert_fk_tables (objs s t))) (update_pks t fk_ids s)") auto
        have p1: "prov env l1 (update_pks t fk_ids s) s1"
          by (rule asyncio_wait_prov [OF _ w same_schema_refl])
            (rule collect_importing_revert_tables_data_prov)
        have p01: "prov env (l0 @ l1) s s1" by (rule prov_trans [OF p0 p1])
        show ?thesis
        proof (cases "need_transfer_pks (objs s1 t) = {}")
          case False
          from importing_done [OF loop g1 f' g2 w False] run
          have eq: "s' = set_ready t s1"
            "l = Info_start_collecting t # l0 @ l1 @ [Info_finished_collecting t]"
            by simp_all
          have "prov env l s s1" unfolding eq by (rule prov_mono [OF p01]) auto
          then show ?thesis unfolding eq(1) by (rule prov_set_ready)
        next
          case True
          obtain x2 l2 where f2: "get_table_column_values env t (primary_key (objs s1 t)) []
              None False s1 = (x2, l2)"
            by (cases "get_table_column_values env t (primary_key (objs s1 t)) [] None False s1")
          show ?thesis
          proof (cases x2)
            case (Inl e)
            from importing_pull_error [OF loop g1 f' g2 w True f2 [unfolded Inl]] run
            have eq: "s' = s1" "l = Info_start_collecting t # l0 @ l1 @ l2" by simp_all
            show ?thesis unfolding eq by (rule prov_mono [OF p01]) auto
          next
            case (Inr all_records)
            from importing_pull_all [OF loop g1 f' g2 w True f2 [unfolded Inr]] run
            have eq: "s' = set_ready t (update_pks t all_records s1)"
              "l = Info_start_collecting t # l0 @ l1 @ l2 @ [Info_finished_collecting t]"
              by simp_all
            have p2: "prov env l2 s1 (update_pks t all_records s1)"
              by (rule prov_update [OF f2 [unfolded Inr] subset_refl]) simp
            have "prov env ((l0 @ l1) @ l2) s (update_pks t all_records s1)"
              by (rule prov_trans [OF p01 p2])
            then have "prov env l s (update_pks t all_records s1)"
              unfolding eq by (rule prov_mono) auto
            then show ?thesis unfolding eq(1) by (rule prov_set_ready)
          qed
        qed
      qed
    qed
  qed
qed

lemma collect_not_transferred_prov:
  "collect_not_transferred env ts s = (r, s', l) \<Longrightarrow> prov env l s s'"
proof (induction ts arbitrary: s r s' l)
  case Nil
  then show ?case by (simp add: prov_refl)
next
  case (Cons n ns)
  show ?case
  proof (cases "tables_getitem env n")
    case (Inl e)
    with Cons.prems show ?thesis by (simp add: prov_refl)
  next
    case (Inr t)
    show ?thesis
    proof (cases "is_ready_for_transferring (objs s t)")
      case True
      with Cons.prems Inr have "collect_not_transferred env ns s = (r, s', l)" by simp
      then show ?thesis by (rule Cons.IH)
    next
      case False
      obtain r1 s1 l1 where c: "collect_importing_fk_tables_records_ids env t s = (r1, s1, l1)"
        by (cases "collect_importing_fk_tables_records_ids env t s") auto
      note p1 = collect_importing_fk_tables_records_ids_prov [OF c]
      show ?thesis
      proof (cases r1)
        case (Inl e)
        with Cons.prems \<open>tables_getitem env n = Inr t\<close> False c p1 show ?thesis by simp
      next
        case (Inr u)
        obtain r2 s2 l2 where c2: "collect_not_transferred env ns s1 = (r2, s2, l2)"
          by (cases "collect_not_transferred env ns s1") auto
        from Cons.prems \<open>tables_getitem env n = Inr t\<close> False c Inr c2
        have eq: "s' = s2" "l = l1 @ l2" by simp_all
        show ?thesis unfolding eq by (rule prov_trans [OF p1 Cons.IH [OF c2]])
      qed
    qed
  qed
qed

lemma prepare_common_tables_prov:
  assumes run: "prepare_common_tables env s = (r, s', l)"
  shows "prov env l s s'"
proof -
  obtain s1 l1 where w: "asyncio_wait (\<lambda>table st. prepare_tables_with_key_column env table st)
      (tables_with_key_column env s) s = (s1, l1)"
    by (cases "asyncio_wait (\<lambda>table st. prepare_tables_with_key_column env table st)
      (tables_with_key_column env s) s") auto
  have p1: "prov env l1 s s1"
    by (rule asyncio_wait_prov [OF _ w same_schema_refl])
      (rule prepare_tables_with_key_column_prov)
  show ?thesis
  proof (cases "sorted_not_transferred env s1")
    case (Inl e)
    with run w p1 show ?thesis by (simp add: prepare_common_tables_def)
  next
    case (Inr order)
    obtain r2 s2 l2 where c: "collect_not_transferred env order s1 = (r2, s2, l2)"
      by (cases "collect_not_transferred env order s1") auto
    from run w Inr c have eq: "s' = s2" "l = l1 @ l2"
      by (simp_all add: prepare_common_tables_def)
    show ?thesis unfolding eq by (rule prov_trans [OF p1 collect_not_transferred_prov [OF c]])
  qed
qed

lemma prepare_content_type_tables_prov:
  assumes run: "prepare_content_type_tables env s = (r, s', l)"
  shows "prov env l s s'"
proof -
  have "objs s' = objs s"
    by (rule prepare_content_type_tables_rel [where R = "\<lambda>a b. objs b = objs a", OF run])
      simp_all
  then show ?thesis by (intro prov_same_pks [OF prov_refl]) simp_all
qed

lemma prepare_content_type_generic_data_prov:
  assumes run: "prepare_content_type_generic_data env target_table rel_table_name s = (r, s', l)"
  shows "prov env l s s'"
proof (cases "\<exists>target S. target_table = Some target \<and>
    s' = update_pks target S s \<and>
    get_table_column_values env target (primary_key (objs s target)) []
      (Some [(''object_id'', need_transfer_pks (objs s rel_table_name)),
             (''content_type_id'', {the (map_of (content_type_table s) rel_table_name)})])
      False s = (Inr S, l)")
  case True
  then obtain target S where s': "s' = update_pks target S s"
    and f: "get_table_column_values env target (primary_key (objs s target)) []
      (Some [(''object_id'', need_transfer_pks (objs s rel_table_name)),
             (''content_type_id'', {the (map_of (content_type_table s) rel_table_name)})])
      False s = (Inr S, l)"
    by blast
  show ?thesis unfolding s' by (rule prov_update [OF f subset_refl]) simp
next
  case False
  with run have "s' = s"
    by (auto simp: prepare_content_type_generic_data_def tables_get_def
        split: if_splits option.splits prod.splits sum.splits)
  then show ?thesis by (simp add: prov_refl)
qed

lemma prepare_generic_table_data_prov:
  assumes run: "prepare_generic_table_data env target_table s = (r, s', l)"
  shows "prov env l s s'"
proof (cases target_table)
  case None
  with run show ?thesis by (simp add: prepare_generic_table_data_def prov_refl)
next
  case (Some target)
  obtain s1 l1 where w: "asyncio_wait
      (\<lambda>rel_table_name st. prepare_content_type_generic_data env target_table rel_table_name st)
      (map fst (content_type_table s)) s = (s1, l1)"
    by (cases "asyncio_wait
      (\<lambda>rel_table_name st. prepare_content_type_generic_data env target_table rel_table_name st)
      (map fst (content_type_table s)) s") auto
  with run Some have eq: "s' = s1" "l = l1" by (simp_all add: prepare_generic_table_data_def)
  show ?thesis unfolding eq
    by (rule asyncio_wait_prov [OF _ w same_schema_refl])
      (rule prepare_content_type_generic_data_prov)
qed

lemma collect_generic_tables_records_ids_prov:
  assumes run: "collect_generic_tables_records_ids env s = (r, s', l)"
  shows "prov env l s s'"
proof -
  obtain s1 l1 where w1: "asyncio_wait (\<lambda>_ st. prepare_content_type_tables env st) [()] s = (s1, l1)"
    by (cases "asyncio_wait (\<lambda>_ st. prepare_content_type_tables env st) [()] s") auto
  define names where "names = filter (\<lambda>n. n \<noteq> [])
      (iter_names env (set (TABLES_WITH_GENERIC_FOREIGN_KEY env) - set (EXCLUDED_TABLES env)))"
  obtain s2 l2 where w2: "asyncio_wait
      (\<lambda>table_name st. prepare_generic_table_data env (tables_get env table_name) st)
      names s1 = (s2, l2)"
    by (cases "asyncio_wait
      (\<lambda>table_name st. prepare_generic_table_data env (tables_get env table_name) st)
      names s1") auto
  have eq: "s' = s2" "l = l1 @ l2"
    using run w1 w2 unfolding collect_generic_tables_records_ids_def Let_def names_def
    by simp_all
  have p1: "prov env l1 s s1"
    by (rule asyncio_wait_prov [OF _ w1 same_schema_refl])
      (rule prepare_content_type_tables_prov)
  have p2: "prov env l2 s1 s2"
    by (rule asyncio_wait_prov [OF _ w2 same_schema_refl])
      (rule prepare_generic_table_data_prov)
  show ?thesis unfolding eq by (rule prov_trans [OF p1 p2])
qed

lemma collect_key_table_values_seed:
  assumes "collect_key_table_values env s = (r, s1, l1)"
  shows "same_schema s s1 \<and> l1 = [] \<and>
     (\<forall>T v. v \<in> need_transfer_pks (objs s1 T) \<longrightarrow>
        v \<in> need_transfer_pks (objs s T) \<or> (T = KEY_TABLE_NAME env \<and> v \<in> key_column_values env))"
  using assms
  by (auto simp: collect_key_table_values_def tables_getitem_def same_schema_def
      set_ready_def update_pks_def static_part_def split: if_splits)

lemma collect_prov:
  assumes v: "v \<in> need_transfer_pks (objs (fst (snd (collect env s))) T)"
  shows "v \<in> need_transfer_pks (objs s T) \<or>
     (T = KEY_TABLE_NAME env \<and> v \<in> key_column_values env) \<or>
     answered env s (snd (snd (collect env s))) T v"
proof -
  obtain r1 s1 l1 where k: "collect_key_table_values env s = (r1, s1, l1)"
    by (cases "collect_key_table_values env s") auto
  obtain r2 s2 l2 where c: "prepare_common_tables env s1 = (r2, s2, l2)"
    by (cases "prepare_common_tables env s1") auto
  obtain r3 s3 l3 where g: "collect_generic_tables_records_ids env s2 = (r3, s3, l3)"
    by (cases "collect_generic_tables_records_ids env s2") auto
  note seed = collect_key_table_values_seed [OF k]
  have eq: "fst (snd (collect env s)) = s3" "snd (snd (collect env s)) = l2 @ l3"
    using k c g seed by (simp_all add: collect_def)
  have p: "prov env (l2 @ l3) s1 s3"
    by (rule prov_trans [OF prepare_common_tables_prov [OF c]
          collect_generic_tables_records_ids_prov [OF g]])
  from v p have "v \<in> need_transfer_pks (objs s1 T) \<or> answered env s1 (l2 @ l3) T v"
    unfolding eq prov_def by blast
  then show ?thesis
  proof
    assume "v \<in> need_transfer_pks (objs s1 T)"
    with seed show ?thesis by blast
  next
    assume "answered env s1 (l2 @ l3) T v"
    then have "answered env s (l2 @ l3) T v"
      using same_schema_answered [of s s1 env "l2 @ l3" T v] seed by simp
    then show ?thesis unfolding eq by simp
  qed
qed

lemma select_column_values_rows:
  "Some v \<in> set (select_column_values src k q) \<Longrightarrow>
     \<exists>r \<in> set (case map_of src (q_table q) of None \<Rightarrow> [] | Some rs \<Rightarrow> rs).
       row_value r (column_name (q_column q)) = Some v"
  by (auto simp: select_column_values_def Let_def)

lemma column_constraint_table:
  "constraint_table (fk_column n t) = Some t"
  "constraint_table (pk_column t dt) = Some t"
  by (simp_all add: fk_column_def pk_column_def)

text \<open>The run on the pair: the direct fetch for \<^verbatim>\<open>user\<close> returns the key 5.\<close>

lemma pair_env_simps:
  "tables pair_env = [''org'', ''user'']"
  "KEY_TABLE_NAME pair_env = ''org''"
  "key_column_values pair_env = {1}"
  "EXCLUDED_TABLES pair_env = []"
  "TABLES_WITH_GENERIC_FOREIGN_KEY pair_env = []"
  "topological_sort pair_env = topological_sort_spec"
  "iter_names pair_env = sorted_list_of_set"
  "get_table_column_values_sql pair_env = (\<lambda>q. [q])"
  "sql_nonempty pair_env = (\<lambda>q. True)"
  "src_fetch pair_env = (\<lambda>q. Inr (select_column_values pair_source ''org_id'' q))"
  by (simp_all add: pair_env_def source_env_def)

lemma pair_objs:
  "objs pair_seeded ''user'' = plain_table ''user'' [fk_column ''org_id'' ''org''] []"
  "objs pair_seeded ''org'' = (plain_table ''org'' [] [])
     \<lparr>need_transfer_pks := {1}, is_ready_for_transferring := True\<rparr>"
  by (simp_all add: pair_seeded_def set_ready_def update_pks_def pair_state_def
      plain_table_def no_table_def)

lemma pair_phase1:
  "collect_key_table_values pair_env pair_state = (Inr (), pair_seeded, [])"
  by (simp add: collect_key_table_values_def tables_getitem_def pair_env_simps pair_seeded_def)

lemma pair_sort:
  "topological_sort_spec [(''user'', ''org'')] = ([''org'', ''user''], [])"
  by (simp add: topological_sort_spec_def graph_nodes_def on_cycle_def parents_of_def Let_def)

lemma pair_order:
  "sorted_not_transferred pair_env pair_seeded = Inr [''user'', ''org'']"
  by (simp add: sorted_not_transferred_def tables_without_generics_def pair_env_simps
      pair_objs plain_table_def no_table_def fk_column_def pair_sort)

lemma pair_select:
  "select_column_values pair_source ''org_id'' pair_query = [Some 5]"
  by (simp add: select_column_values_def pair_query_def pair_objs plain_table_def no_table_def
      pair_source_def row_value_def pk_column_def)

lemma pair_fetch:
  "get_table_column_values pair_env ''user'' (Some (pk_column ''user'' ''integer'')) []
     (Some [(''org_id'', {1})]) False pair_seeded =
   (Inr {5},
    [Fetch_call ''user'' (Some (pk_column ''user'' ''integer'')) [] (Some [(''org_id'', {1})]) False,
     Debug_sql pair_query])"
proof -
  have ct: "constraint_table (pk_column ''user'' ''integer'') = Some ''user''"
    by (simp add: pk_column_def)
  show ?thesis
    by (simp add: get_table_column_values_def ct pair_env_simps
        get_constraint_table_ids_part_def pair_query_def [symmetric] pair_select)
qed

lemma pair_importing:
  "collect_importing_fk_tables_records_ids pair_env ''user'' pair_seeded =
     (Inr (), set_ready ''user'' (update_pks ''user'' {5} pair_seeded),
      [Info_start_collecting ''user'',
       Fetch_call ''user'' (Some (pk_column ''user'' ''integer'')) []
         (Some [(''org_id'', {1})]) False,
       Debug_sql pair_query, Info_finished_collecting ''user''])"
proof -
  have cols: "fk_columns_of (objs pair_seeded ''user'') = [fk_column ''org_id'' ''org'']"
    by (simp add: fk_columns_of_def pair_objs plain_table_def no_table_def fk_column_def)
  have loop: "where_conditions_loop pair_env pair_seeded (fk_columns_of (objs pair_seeded ''user''))
      [] False = Inr ([(''org_id'', {1})], False)"
    by (simp only: cols)
      (simp add: fk_column_def tables_getitem_def pair_env_simps pair_objs
        plain_table_def no_table_def)
  have pk: "primary_key (objs pair_seeded ''user'') = Some (pk_column ''user'' ''integer'')"
    and rev: "revert_fk_tables (objs pair_seeded ''user'') = []"
    by (simp_all add: pair_objs plain_table_def no_table_def)
  have g1: "\<not> (fk_columns_of (objs pair_seeded ''user'') \<noteq> [] \<and> [(''org_id'', {1::int})] = [] \<and>
      \<not> False)"
    by simp
  have f: "get_table_column_values pair_env ''user'' (primary_key (objs pair_seeded ''user'')) []
      (Some [(''org_id'', {1})]) False pair_seeded =
    (Inr {5}, [Fetch_call ''user'' (Some (pk_column ''user'' ''integer'')) []
       (Some [(''org_id'', {1})]) False, Debug_sql pair_query])"
    by (simp only: pk pair_fetch)
  have g2: "\<not> (fk_columns_of (objs pair_seeded ''user'') \<noteq> [] \<and> [(''org_id'', {1::int})] \<noteq> [] \<and>
      {5::int} = {})"
    by simp
  have w: "asyncio_wait (\<lambda>rev_table_name st.
          collect_importing_revert_tables_data pair_env rev_table_name ''user'' st)
        (map fst (revert_fk_tables (objs pair_seeded ''user''))) (update_pks ''user'' {5} pair_seeded) =
      (update_pks ''user'' {5} pair_seeded, [])"
    by (simp add: rev)
  have ne: "need_transfer_pks (objs (update_pks ''user'' {5} pair_seeded) ''user'') \<noteq> {}"
    by (simp add: update_pks_def)
  have "collect_importing_fk_tables_records_ids pair_env ''user'' pair_seeded =
     (Inr (), set_ready ''user'' (update_pks ''user'' {5} pair_seeded),
      Info_start_collecting ''user'' #
      [Fetch_call ''user'' (Some (pk_column ''user'' ''integer'')) []
         (Some [(''org_id'', {1})]) False, Debug_sql pair_query] @ [] @
      [Info_finished_collecting ''user''])"
    by (rule importing_done [OF loop g1 f g2 w ne])
  then show ?thesis by simp
qed

lemma pair_phase2:
  "prepare_common_tables pair_env pair_seeded =
     (Inr (), set_ready ''user'' (update_pks ''user'' {5} pair_seeded),
      [Info_start_collecting ''user'',
       Fetch_call ''user'' (Some (pk_column ''user'' ''integer'')) []
         (Some [(''org_id'', {1})]) False,
       Debug_sql pair_query, Info_finished_collecting ''user''])"
proof -
  have twk: "tables_with_key_column pair_env pair_seeded = []"
    by (simp add: tables_with_key_column_def pair_env_simps pair_objs plain_table_def no_table_def)
  have ready: "\<not> is_ready_for_transferring (objs pair_seeded ''user'')"
    "is_ready_for_transferring
       (objs (set_ready ''user'' (update_pks ''user'' {5} pair_seeded)) ''org'')"
    by (simp_all add: pair_objs plain_table_def no_table_def set_ready_def update_pks_def)
  show ?thesis
    using twk pair_order pair_importing ready
    by (simp add: prepare_common_tables_def tables_getitem_def pair_env_simps)
qed

lemma pair_phase3:
  "collect_generic_tables_records_ids pair_env s = (Inr (), s, [])"
  by (simp add: collect_generic_tables_records_ids_def prepare_content_type_tables_def
      content_type_table_dict_of_def content_type_dict_of_def pair_env_simps pair_env_def
      source_env_def)

lemma pair_run:
  "collect pair_env pair_state =
     (Inr (), set_ready ''user'' (update_pks ''user'' {5} pair_seeded),
      [Info_start_collecting ''user'',
       Fetch_call ''user'' (Some (pk_column ''user'' ''integer'')) []
         (Some [(''org_id'', {1})]) False,
       Debug_sql pair_query, Info_finished_collecting ''user''])"
  by (simp add: collect_def pair_phase1 pair_phase2 pair_phase3)

lemma pair_user_targets:
  assumes "targets pair_state q ''user''"
  shows "q_table q = ''user'' \<and> q_column q = pk_column ''user'' ''integer''"
  using assms
  by (auto simp: targets_def pair_state_def plain_table_def no_table_def
      column_constraint_table split: if_splits)

lemma pair_user_present:
  assumes "targets pair_state q ''user''"
    and "Some v \<in> set (select_column_values pair_source k q)"
  shows "v = 5"
  using pair_user_targets [OF assms(1)] select_column_values_rows [OF assms(2)]
  by (auto simp: pair_source_def row_value_def pk_column_def)

text \<open>
  C5, as the code has it. At the end of \<^verbatim>\<open>collect\<close> every key selected for a table \<open>T\<close>
  was selected before the run, or, for the key table, belongs to the caller's seed, or is
  a non-NULL value that the source returned to a statement that the run logged and that
  was built for a column that leads to \<open>T\<close>: the primary key of \<open>T\<close> itself, or a column
  of some table whose constraint table is \<open>T\<close>. So, whenever the logged statements for
  such columns return only primary keys present in the source table \<open>T\<close> (the set
  \<open>present\<close>), the keys selected for \<open>T\<close> are within those selected before, \<open>present\<close>
  and, for the key table, the seed. The whole seed is selected for the key table,
  whatever the source holds.
\<close>

theorem C5_selected_pks:
  "(v \<in> need_transfer_pks (objs (fst (snd (collect env s))) T) \<longrightarrow>
      v \<in> need_transfer_pks (objs s T) \<or>
      (T = KEY_TABLE_NAME env \<and> v \<in> key_column_values env) \<or>
      answered env s (snd (snd (collect env s))) T v) \<and>
   ((\<forall>q sql rows v'. targets s q T \<and> sql \<in> set (get_table_column_values_sql env q) \<and>
        Debug_sql sql \<in> set (snd (snd (collect env s))) \<and>
        src_fetch env sql = Inr rows \<and> Some v' \<in> set rows \<longrightarrow> v' \<in> present) \<longrightarrow>
      need_transfer_pks (objs (fst (snd (collect env s))) T) \<subseteq>
        need_transfer_pks (objs s T) \<union> present \<union>
        (if T = KEY_TABLE_NAME env then key_column_values env else {})) \<and>
   (KEY_TABLE_NAME env \<in> set (tables env) \<longrightarrow>
      key_column_values env \<subseteq>
        need_transfer_pks (objs (fst (snd (collect env s))) (KEY_TABLE_NAME env)))"
proof (intro conjI impI)
  assume "v \<in> need_transfer_pks (objs (fst (snd (collect env s))) T)"
  then show "v \<in> need_transfer_pks (objs s T) \<or>
      (T = KEY_TABLE_NAME env \<and> v \<in> key_column_values env) \<or>
      answered env s (snd (snd (collect env s))) T v"
    by (rule collect_prov)
next
  assume sound: "\<forall>q sql rows v'. targets s q T \<and> sql \<in> set (get_table_column_values_sql env q) \<and>
      Debug_sql sql \<in> set (snd (snd (collect env s))) \<and>
      src_fetch env sql = Inr rows \<and> Some v' \<in> set rows \<longrightarrow> v' \<in> present"
  show "need_transfer_pks (objs (fst (snd (collect env s))) T) \<subseteq>
      need_transfer_pks (objs s T) \<union> present \<union>
      (if T = KEY_TABLE_NAME env then key_column_values env else {})"
  proof
    fix x
    assume "x \<in> need_transfer_pks (objs (fst (snd (collect env s))) T)"
    from collect_prov [OF this] sound
    show "x \<in> need_transfer_pks (objs s T) \<union> present \<union>
        (if T = KEY_TABLE_NAME env then key_column_values env else {})"
      unfolding answered_def by auto
  qed
next
  assume "KEY_TABLE_NAME env \<in> set (tables env)"
  then show "key_column_values env \<subseteq>
      need_transfer_pks (objs (fst (snd (collect env s))) (KEY_TABLE_NAME env))"
    by (rule collect_key_seed)
qed

text \<open>
  C5, witness: on the pair the key 5 is selected for \<^verbatim>\<open>user\<close>; it was not selected before
  and \<^verbatim>\<open>user\<close> is not the key table, so the theorem gives the logged statement that
  returned it. The only column that leads to \<^verbatim>\<open>user\<close> is its primary key, whose statements
  return the key 5 only, the one primary key of \<^verbatim>\<open>user\<close> in the source, and 5 is all that is
  selected for \<^verbatim>\<open>user\<close>. In the key-only schema the key table is a table of the schema, and
  the whole seed is selected.
\<close>

theorem C5_selected_pks_witness:
  "5 \<in> need_transfer_pks (objs (fst (snd (collect pair_env pair_state))) ''user'') \<and>
   answered pair_env pair_state (snd (snd (collect pair_env pair_state))) ''user'' 5 \<and>
   need_transfer_pks (objs (fst (snd (collect pair_env pair_state))) ''user'') \<subseteq> {5} \<and>
   {1, 2, 99} \<subseteq> need_transfer_pks (objs (fst (snd (collect key_env key_state))) ''org'')"
proof -
  have init: "need_transfer_pks (objs pair_state ''user'') = {}"
    by (simp add: pair_state_def plain_table_def no_table_def)
  have sel: "5 \<in> need_transfer_pks (objs (fst (snd (collect pair_env pair_state))) ''user'')"
    by (simp add: pair_run set_ready_def update_pks_def)
  have ans: "answered pair_env pair_state (snd (snd (collect pair_env pair_state))) ''user'' 5"
    using C5_selected_pks [where env = pair_env and s = pair_state and T = "''user''" and v = 5
        and present = "{}"] sel init
    by (simp add: pair_env_simps)
  have sound: "\<forall>q sql rows v'. targets pair_state q ''user'' \<and>
      sql \<in> set (get_table_column_values_sql pair_env q) \<and>
      Debug_sql sql \<in> set (snd (snd (collect pair_env pair_state))) \<and>
      src_fetch pair_env sql = Inr rows \<and> Some v' \<in> set rows \<longrightarrow> v' \<in> {5}"
    by (auto simp: pair_env_simps dest: pair_user_present)
  have bound: "need_transfer_pks (objs (fst (snd (collect pair_env pair_state))) ''user'') \<subseteq> {5}"
    using C5_selected_pks [where env = pair_env and s = pair_state and T = "''user''"
        and present = "{5}"] sound init
    by (simp add: pair_env_simps)
  have key: "{1, 2, 99} \<subseteq>
      need_transfer_pks (objs (fst (snd (collect key_env key_state))) ''org'')"
    using C5_selected_pks [where env = key_env and s = key_state and T = "''org''"]
    by (simp add: key_env_def source_env_def)
  from sel ans bound key show ?thesis by simp
qed

section \<open>Referential closure (C1)\<close>

lemma foreign_closure:
  assumes ct: "constraint_table c = Some U" and U: "U \<in> set (tables env)"
    and ns: "U \<notin> set stk" and nk: "\<not> with_key_column (objs s U)"
    and f: "fst (if with_key_column (objs s t)
                 then get_table_column_values env t (Some c) [] None False s
                 else get_table_column_values env t (Some c)
                        (if \<not> is_full_transferred (objs s t) then pks else [])
                        None False s) = Inr S"
  shows "S \<subseteq> need_transfer_pks
     (objs (fst (snd (recursively_preparing_foreign_table env t c pks stk d s))) U)"
proof -
  define fetch where "fetch =
    (if with_key_column (objs s t)
     then get_table_column_values env t (Some c) [] None False s
     else get_table_column_values env t (Some c)
            (if \<not> is_full_transferred (objs s t) then pks else []) None False s)"
  obtain l0 where fetch: "fetch = (Inr S, l0)"
    using f unfolding fetch_def [symmetric] by (cases fetch) auto
  define D where "D = S - need_transfer_pks (objs s U)"
  have get: "tables_getitem env U = Inr U" using U by (simp add: tables_getitem_def)
  have unf: "recursively_preparing_foreign_table env t c pks stk d s =
      (case fetch of
         (Inl e, l) \<Rightarrow> (Inl e, s, l)
       | (Inr foreign_table_pks, l) \<Rightarrow>
           if foreign_table_pks \<noteq> {} then
             (let foreign_table_pks_difference =
                    foreign_table_pks - need_transfer_pks (objs s U)
              in if foreign_table_pks_difference \<noteq> {} then
                   (case asyncio_wait
                           (\<lambda>chunk st. recursively_preparing_foreign_table_chunk env
                              U chunk stk d st)
                           (make_chunks (iter_pks env foreign_table_pks_difference)
                              (CHUNK_SIZE env))
                           (update_pks U foreign_table_pks_difference s) of
                      (s2, l2) \<Rightarrow> (Inr (), s2, l @ l2))
                 else (Inr (), s, l))
           else (Inr (), s, l))"
    using ns nk
    by (simp add: recursively_preparing_foreign_table.simps [of env t c pks stk d s]
        ct get fetch_def)
  show ?thesis
  proof (cases "D = {}")
    case True
    then have "fst (snd (recursively_preparing_foreign_table env t c pks stk d s)) = s"
      unfolding unf fetch by (simp add: D_def Let_def)
    with True show ?thesis by (auto simp: D_def)
  next
    case False
    obtain s2 l2 where w: "asyncio_wait
        (\<lambda>chunk st. recursively_preparing_foreign_table_chunk env U chunk stk d st)
        (make_chunks (iter_pks env D) (CHUNK_SIZE env)) (update_pks U D s) = (s2, l2)"
      by (cases "asyncio_wait
        (\<lambda>chunk st. recursively_preparing_foreign_table_chunk env U chunk stk d st)
        (make_chunks (iter_pks env D) (CHUNK_SIZE env)) (update_pks U D s)") auto
    from False have "S \<noteq> {}" by (auto simp: D_def)
    then have s2: "fst (snd (recursively_preparing_foreign_table env t c pks stk d s)) = s2"
      unfolding unf fetch using False w by (simp add: D_def [symmetric] Let_def)
    have "need_transfer_pks (objs (update_pks U D s) U) \<subseteq> need_transfer_pks (objs s2 U)"
    proof (rule asyncio_wait_rel [where R = "\<lambda>a b. need_transfer_pks (objs a U)
        \<subseteq> need_transfer_pks (objs b U)", OF _ _ _ w])
      fix ch st r st' l
      assume run: "recursively_preparing_foreign_table_chunk env U ch stk d st = (r, st', l)"
      show "need_transfer_pks (objs st U) \<subseteq> need_transfer_pks (objs st' U)"
        by (rule recursively_preparing_rel(1)
            [where R = "\<lambda>a b. need_transfer_pks (objs a U) \<subseteq> need_transfer_pks (objs b U)",
              OF _ _ run])
          (auto simp: update_pks_def)
    qed auto
    moreover have "S \<subseteq> need_transfer_pks (objs (update_pks U D s) U)"
      by (auto simp: update_pks_def D_def)
    ultimately show ?thesis unfolding s2 by blast
  qed
qed

lemma revert_closure:
  assumes "fst (get_table_column_values env rt (Some fkc)
      (if \<not> is_full_transferred (objs s rt)
       then iter_pks env (need_transfer_pks (objs s rt)) else []) None True s) = Inr rev_ids"
  shows "rev_ids \<subseteq> need_transfer_pks
     (objs (fst (snd (collect_revert_table_ids env rt fkc t s))) t)"
  using assms
  by (auto simp: collect_revert_table_ids_def Let_def update_pks_def split: prod.splits)

lemma source_env_fetch:
  assumes "constraint_table c = Some ct"
  shows "fst (get_table_column_values (source_env src key ts seed) t (Some c) pks w rv s) =
     Inr (set (map the (filter (\<lambda>v. v \<noteq> None)
       (select_column_values src (key @ ''_id'')
          \<lparr>q_table = t, q_table_obj = objs s t, q_column = c, q_key_column_values = seed,
           q_primary_key_values = pks, q_where_conditions_columns = w, q_is_revert = rv\<rparr>))))"
  using assms
  by (simp add: get_table_column_values_def source_env_def get_constraint_table_ids_part_def)

lemma chain_org_obj:
  "with_key_column (objs chain_seeded ''org'') = False"
  "primary_key (objs chain_seeded ''org'') = Some (pk_column ''org'' ''integer'')"
  "is_full_transferred (objs chain_seeded ''org'') = False"
  "need_transfer_pks (objs chain_seeded ''org'') = {1}"
  "with_key_column (objs chain_seeded ''dept'') = False"
  by (simp_all add: chain_seeded_objs chain_state_def plain_table_def no_table_def)

lemma chain_org_select:
  "select_column_values chain_source k
     \<lparr>q_table = ''org'', q_table_obj = objs chain_seeded ''org'',
      q_column = fk_column ''dept_id'' ''dept'', q_key_column_values = seed,
      q_primary_key_values = [1], q_where_conditions_columns = None, q_is_revert = rv\<rparr> =
   [Some 10]"
  by (simp add: select_column_values_def chain_org_obj chain_source_def row_value_def
      pk_column_def fk_column_def)

lemma chain_org_fetch:
  "fst (get_table_column_values chain_env ''org'' (Some (fk_column ''dept_id'' ''dept'')) [1]
          None rv chain_seeded) = Inr {10}"
  unfolding chain_env_def
  by (subst source_env_fetch [where ct = "''dept''"])
    (simp_all add: fk_column_def [symmetric] chain_org_select, simp add: fk_column_def)

text \<open>
  C1, counterexample. The claim has, for every ready table and every forward FK column
  with a target that is not excluded, the referenced key of every selected row selected in
  the target. On the chain, \<^verbatim>\<open>org\<close> is ready with row 1 selected, the row's \<^verbatim>\<open>dept_id\<close> is
  10, \<^verbatim>\<open>dept\<close> is not excluded, and 10 is not selected in \<^verbatim>\<open>dept\<close>: the Phase 2b step of
  \<^verbatim>\<open>dept\<close> leaves through its first guard, before its reverse expansion.
\<close>

theorem C1_counterexample:
  "is_ready_for_transferring (objs (fst (snd (collect chain_env chain_state))) ''org'') \<and>
   1 \<in> need_transfer_pks (objs (fst (snd (collect chain_env chain_state))) ''org'') \<and>
   fk_column ''dept_id'' ''dept''
     \<in> set (not_self_fk_columns (objs (fst (snd (collect chain_env chain_state))) ''org'')) \<and>
   ''dept'' \<notin> set (EXCLUDED_TABLES chain_env) \<and>
   source_value chain_source ''org'' 1 ''dept_id'' = Some 10 \<and>
   10 \<notin> need_transfer_pks (objs (fst (snd (collect chain_env chain_state))) ''dept'')"
proof -
  have "source_value chain_source ''org'' 1 ''dept_id'' = Some 10"
    by (simp add: source_value_def chain_source_def row_value_def)
  then show ?thesis
    using chain_run
    by (simp add: chain_env_simps chain_state_def plain_table_def no_table_def fk_column_def)
qed

text \<open>
  C1, as the code has it: closure is established by two steps, each for the values it
  fetched. When \<^verbatim>\<open>_recursively_preparing_foreign_table\<close> does not skip the target \<open>U\<close> of
  the column (it is a table of the schema, not on the stack and without the key column)
  and its fetch of the column raises nothing, every fetched value is in
  \<open>U.need_transfer_pks\<close> when the function returns. When the fetch of
  \<^verbatim>\<open>_collect_revert_table_ids\<close> raises nothing, every fetched value is in the referenced
  table's \<open>need_transfer_pks\<close> when the function returns.
\<close>

theorem C1_closure_steps:
  "(constraint_table column = Some U \<and> U \<in> set (tables env) \<and> U \<notin> set stack_tables \<and>
    \<not> with_key_column (objs s U) \<and>
    fst (if with_key_column (objs s table)
         then get_table_column_values env table (Some column) [] None False s
         else get_table_column_values env table (Some column)
                (if \<not> is_full_transferred (objs s table) then pks else [])
                None False s) = Inr S \<longrightarrow>
      S \<subseteq> need_transfer_pks
            (objs (fst (snd (recursively_preparing_foreign_table env table column pks
                               stack_tables d s))) U)) \<and>
   (fst (get_table_column_values env rev_table (Some fk_col)
           (if \<not> is_full_transferred (objs s rev_table)
            then iter_pks env (need_transfer_pks (objs s rev_table)) else [])
           None True s) = Inr rev_ids \<longrightarrow>
      rev_ids \<subseteq> need_transfer_pks
            (objs (fst (snd (collect_revert_table_ids env rev_table fk_col referenced s)))
               referenced))"
  using foreign_closure [of column U env stack_tables s table pks S d]
    revert_closure [of env rev_table fk_col s rev_ids referenced]
  by blast

text \<open>
  C1, witness: on the chain after Phase 1, the column \<^verbatim>\<open>org.dept_id\<close> of the selected row
  holds 10, \<^verbatim>\<open>dept\<close> is a table of the schema without the key column, and both steps put
  10 into \<^verbatim>\<open>dept\<close>.
\<close>

theorem C1_closure_steps_witness:
  "{10} \<subseteq> need_transfer_pks
      (objs (fst (snd (recursively_preparing_foreign_table chain_env ''org''
                         (fk_column ''dept_id'' ''dept'') [1] [''org''] 1 chain_seeded)))
         ''dept'') \<and>
   {10} \<subseteq> need_transfer_pks
      (objs (fst (snd (collect_revert_table_ids chain_env ''org''
                         (fk_column ''dept_id'' ''dept'') ''dept'' chain_seeded))) ''dept'')"
proof -
  have it: "iter_pks chain_env {1} = [1]"
    by (simp add: chain_env_def source_env_def)
  show ?thesis
    using C1_closure_steps [where column = "fk_column ''dept_id'' ''dept''" and U = "''dept''"
        and env = chain_env and stack_tables = "[''org'']" and s = chain_seeded
        and table = "''org''" and pks = "[1]" and S = "{10}" and d = 1
        and rev_table = "''org''" and rev_ids = "{10}"
        and fk_col = "fk_column ''dept_id'' ''dept''" and referenced = "''dept''"]
      chain_org_fetch [of False] chain_org_fetch [of True] chain_org_obj it
    by (simp add: chain_env_simps fk_column_def)
qed

section \<open>The order of Phase 2b (C6)\<close>

lemma collect_not_transferred_append:
  "collect_not_transferred env (xs @ ys) s =
     (case collect_not_transferred env xs s of
        (Inl e, s1, l1) \<Rightarrow> (Inl e, s1, l1)
      | (Inr u, s1, l1) \<Rightarrow>
          (case collect_not_transferred env ys s1 of (r, s2, l2) \<Rightarrow> (r, s2, l1 @ l2)))"
proof (induction xs arbitrary: s)
  case Nil
  then show ?case by (simp split: prod.splits)
next
  case (Cons x xs)
  show ?case
  proof (cases "tables_getitem env x")
    case (Inl e)
    then show ?thesis by simp
  next
    case (Inr t)
    show ?thesis
    proof (cases "is_ready_for_transferring (objs s t)")
      case True
      with Inr Cons.IH show ?thesis by simp
    next
      case False
      obtain r1 s1 l1 where c: "collect_importing_fk_tables_records_ids env t s = (r1, s1, l1)"
        by (cases "collect_importing_fk_tables_records_ids env t s") auto
      show ?thesis
      proof (cases r1)
        case (Inl e)
        with Inr False c show ?thesis by simp
      next
        case (Inr u)
        with \<open>tables_getitem env x = Inr t\<close> False c Cons.IH [of s1] show ?thesis
          by (simp split: prod.splits sum.splits)
      qed
    qed
  qed
qed

lemma chain_relatives:
  "not_transferred_relatives chain_seeded (tables_without_generics chain_env) =
     Inr [(''org'', ''dept''), (''dept'', ''region'')]"
  by (simp add: tables_without_generics_def chain_env_simps chain_seeded_objs chain_state_def
      plain_table_def no_table_def fk_column_def)

text \<open>
  C6. The order of Phase 2b is the set of the non-generic tables that the sorter's two
  results do not name, in the order in which Python iterates over that set (which the
  code does not fix), followed by the reversed \<^verbatim>\<open>cyclic\<close> result, followed by the reversed
  \<^verbatim>\<open>sorted\<close> result; when the sorter's results name exactly the tables of the edge list,
  that set is the set of the non-generic tables that the edge list does not mention, and
  these are the prepended tables when the iteration yields the elements of the set.
  The walk is sequential: the tables of a later part of the list are processed on the
  state, and after the log, that the earlier part left, and an exception ends the walk. A
  table that is already ready is skipped; a table that is not is given to
  \<^verbatim>\<open>_collect_importing_fk_tables_records_ids\<close>. \<^verbatim>\<open>_prepare_common_tables\<close> runs this
  walk after the tasks of the tables with the key column.
\<close>

theorem C6_processing_order:
  "(not_transferred_relatives s (tables_without_generics env) = Inr relatives \<longrightarrow>
      sorted_not_transferred env s =
        Inr (iter_names env
               (set (tables_without_generics env)
                  - set (rev (snd (topological_sort env relatives))
                         @ rev (fst (topological_sort env relatives))))
             @ rev (snd (topological_sort env relatives))
             @ rev (fst (topological_sort env relatives)))) \<and>
   (set (fst (topological_sort env relatives)) \<union> set (snd (topological_sort env relatives)) =
      fst ` set relatives \<union> snd ` set relatives \<longrightarrow>
      set (tables_without_generics env)
        - set (rev (snd (topological_sort env relatives))
               @ rev (fst (topological_sort env relatives))) =
        {n \<in> set (tables env). n \<notin> set (TABLES_WITH_GENERIC_FOREIGN_KEY env)}
          - (fst ` set relatives \<union> snd ` set relatives)) \<and>
   (set (fst (topological_sort env relatives)) \<union> set (snd (topological_sort env relatives)) =
      fst ` set relatives \<union> snd ` set relatives \<and>
    set (iter_names env
           (set (tables_without_generics env)
              - set (rev (snd (topological_sort env relatives))
                     @ rev (fst (topological_sort env relatives))))) =
      set (tables_without_generics env)
        - set (rev (snd (topological_sort env relatives))
               @ rev (fst (topological_sort env relatives))) \<longrightarrow>
      set (iter_names env
             (set (tables_without_generics env)
                - set (rev (snd (topological_sort env relatives))
                       @ rev (fst (topological_sort env relatives))))) =
        {n \<in> set (tables env). n \<notin> set (TABLES_WITH_GENERIC_FOREIGN_KEY env)}
          - (fst ` set relatives \<union> snd ` set relatives)) \<and>
   collect_not_transferred env (xs @ ys) s =
     (case collect_not_transferred env xs s of
        (Inl e, s1, l1) \<Rightarrow> (Inl e, s1, l1)
      | (Inr u, s1, l1) \<Rightarrow>
          (case collect_not_transferred env ys s1 of (r, s2, l2) \<Rightarrow> (r, s2, l1 @ l2))) \<and>
   (n \<in> set (tables env) \<and> is_ready_for_transferring (objs s n) \<longrightarrow>
      collect_not_transferred env (n # ns) s = collect_not_transferred env ns s) \<and>
   (n \<in> set (tables env) \<and> \<not> is_ready_for_transferring (objs s n) \<longrightarrow>
      collect_not_transferred env [n] s = collect_importing_fk_tables_records_ids env n s) \<and>
   prepare_common_tables env s =
     (case asyncio_wait (\<lambda>table st. prepare_tables_with_key_column env table st)
             (tables_with_key_column env s) s of
        (s1, l1) \<Rightarrow>
          (case sorted_not_transferred env s1 of
             Inl e \<Rightarrow> (Inl e, s1, l1)
           | Inr order \<Rightarrow>
               (case collect_not_transferred env order s1 of
                  (r, s2, l2) \<Rightarrow> (r, s2, l1 @ l2))))"
proof (intro conjI impI)
  assume "not_transferred_relatives s (tables_without_generics env) = Inr relatives"
  then show "sorted_not_transferred env s =
      Inr (iter_names env
             (set (tables_without_generics env)
                - set (rev (snd (topological_sort env relatives))
                       @ rev (fst (topological_sort env relatives))))
           @ rev (snd (topological_sort env relatives))
           @ rev (fst (topological_sort env relatives)))"
    by (simp add: sorted_not_transferred_def Let_def split: prod.splits)
next
  assume "set (fst (topological_sort env relatives)) \<union> set (snd (topological_sort env relatives)) =
      fst ` set relatives \<union> snd ` set relatives"
  then show "set (tables_without_generics env)
        - set (rev (snd (topological_sort env relatives))
               @ rev (fst (topological_sort env relatives))) =
        {n \<in> set (tables env). n \<notin> set (TABLES_WITH_GENERIC_FOREIGN_KEY env)}
          - (fst ` set relatives \<union> snd ` set relatives)"
    by (auto simp: tables_without_generics_def)
next
  assume "set (fst (topological_sort env relatives)) \<union> set (snd (topological_sort env relatives)) =
      fst ` set relatives \<union> snd ` set relatives \<and>
    set (iter_names env
           (set (tables_without_generics env)
              - set (rev (snd (topological_sort env relatives))
                     @ rev (fst (topological_sort env relatives))))) =
      set (tables_without_generics env)
        - set (rev (snd (topological_sort env relatives))
               @ rev (fst (topological_sort env relatives)))"
  then show "set (iter_names env
             (set (tables_without_generics env)
                - set (rev (snd (topological_sort env relatives))
                       @ rev (fst (topological_sort env relatives))))) =
        {n \<in> set (tables env). n \<notin> set (TABLES_WITH_GENERIC_FOREIGN_KEY env)}
          - (fst ` set relatives \<union> snd ` set relatives)"
    by (auto simp: tables_without_generics_def)
next
  show "collect_not_transferred env (xs @ ys) s =
     (case collect_not_transferred env xs s of
        (Inl e, s1, l1) \<Rightarrow> (Inl e, s1, l1)
      | (Inr u, s1, l1) \<Rightarrow>
          (case collect_not_transferred env ys s1 of (r, s2, l2) \<Rightarrow> (r, s2, l1 @ l2)))"
    by (rule collect_not_transferred_append)
next
  assume "n \<in> set (tables env) \<and> is_ready_for_transferring (objs s n)"
  then show "collect_not_transferred env (n # ns) s = collect_not_transferred env ns s"
    by (simp add: tables_getitem_def)
next
  assume "n \<in> set (tables env) \<and> \<not> is_ready_for_transferring (objs s n)"
  then show "collect_not_transferred env [n] s = collect_importing_fk_tables_records_ids env n s"
    by (simp add: tables_getitem_def split: prod.splits sum.splits)
next
  show "prepare_common_tables env s =
     (case asyncio_wait (\<lambda>table st. prepare_tables_with_key_column env table st)
             (tables_with_key_column env s) s of
        (s1, l1) \<Rightarrow>
          (case sorted_not_transferred env s1 of
             Inl e \<Rightarrow> (Inl e, s1, l1)
           | Inr order \<Rightarrow>
               (case collect_not_transferred env order s1 of
                  (r, s2, l2) \<Rightarrow> (r, s2, l1 @ l2))))"
    by (simp add: prepare_common_tables_def)
qed

lemma isles_relatives:
  "not_transferred_relatives chain_seeded (tables_without_generics isles_env) =
     Inr [(''org'', ''dept''), (''dept'', ''region'')]"
  by (simp add: tables_without_generics_def isles_env_def chain_env_simps chain_seeded_def
      set_ready_def update_pks_def chain_state_def plain_table_def no_table_def fk_column_def)

lemma isles_names:
  "sorted_list_of_set
     (set [''org'', ''dept'', ''region'', ''gamma'', ''beta''] - set [''org'', ''dept'', ''region'']) =
   [''beta'', ''gamma'']"
  by code_simp

lemma isles_env_simps:
  "tables isles_env = [''org'', ''dept'', ''region'', ''gamma'', ''beta'']"
  "TABLES_WITH_GENERIC_FOREIGN_KEY isles_env = []"
  "topological_sort isles_env = topological_sort_spec"
  "iter_names isles_env = sorted_list_of_set"
  by (simp_all add: isles_env_def chain_env_simps)

lemma isles_rest:
  "set (tables_without_generics isles_env)
     - set (rev (snd (topological_sort isles_env [(''org'', ''dept''), (''dept'', ''region'')]))
            @ rev (fst (topological_sort isles_env [(''org'', ''dept''), (''dept'', ''region'')]))) =
   set [''org'', ''dept'', ''region'', ''gamma'', ''beta''] - set [''org'', ''dept'', ''region'']"
  by (simp add: isles_env_simps chain_sort tables_without_generics_def)

lemma isles_prepended:
  "iter_names isles_env
     (set (tables_without_generics isles_env)
        - set (rev (snd (topological_sort isles_env [(''org'', ''dept''), (''dept'', ''region'')]))
               @ rev (fst (topological_sort isles_env
                             [(''org'', ''dept''), (''dept'', ''region'')])))) =
   [''beta'', ''gamma'']"
  by (simp only: isles_rest) (simp only: isles_env_simps isles_names)

lemma isles_rest_set:
  "set [''org'', ''dept'', ''region'', ''gamma'', ''beta''] - set [''org'', ''dept'', ''region''] =
   set [''beta'', ''gamma'']"
  by code_simp

lemma isles_twg:
  "tables_without_generics isles_env = [''org'', ''dept'', ''region'', ''gamma'', ''beta'']"
  by (simp add: tables_without_generics_def isles_env_simps)

lemma isles_free:
  "{n \<in> set (tables isles_env). n \<notin> set (TABLES_WITH_GENERIC_FOREIGN_KEY isles_env)}
     - (fst ` set [(''org'', ''dept''), (''dept'', ''region'')]
        \<union> snd ` set [(''org'', ''dept''), (''dept'', ''region'')]) =
   {''gamma'', ''beta''}"
  by (auto simp: isles_env_simps)

text \<open>
  C6, witness: in the schema with the two tables \<^verbatim>\<open>gamma\<close> and \<^verbatim>\<open>beta\<close> beside the chain,
  after Phase 1, the edge list is \<^verbatim>\<open>(org, dept), (dept, region)\<close> and the sorter names
  exactly these three tables; the two other tables are prepended, here in ascending
  order, which is not their order in the tables dict; \<^verbatim>\<open>org\<close> is ready and \<^verbatim>\<open>dept\<close> is
  not.
\<close>

theorem C6_processing_order_witness:
  "sorted_not_transferred isles_env chain_seeded =
     Inr [''beta'', ''gamma'', ''org'', ''dept'', ''region''] \<and>
   set (iter_names isles_env
          (set (tables_without_generics isles_env) - set [''org'', ''dept'', ''region''])) =
     {''gamma'', ''beta''} \<and>
   collect_not_transferred isles_env [''org'', ''dept''] chain_seeded =
     collect_not_transferred isles_env [''dept''] chain_seeded \<and>
   collect_not_transferred isles_env [''dept''] chain_seeded =
     collect_importing_fk_tables_records_ids isles_env ''dept'' chain_seeded"
proof -
  let ?rel = "[(''org'', ''dept''), (''dept'', ''region'')]"
  note org = C6_processing_order [where env = isles_env and s = chain_seeded
      and relatives = ?rel and n = "''org''" and ns = "[''dept'']"]
  note dept = C6_processing_order [where env = isles_env and s = chain_seeded
      and relatives = ?rel and n = "''dept''"]
  have ready: "''org'' \<in> set (tables isles_env) \<and>
      is_ready_for_transferring (objs chain_seeded ''org'')"
    "''dept'' \<in> set (tables isles_env) \<and>
      \<not> is_ready_for_transferring (objs chain_seeded ''dept'')"
    by (simp_all add: isles_env_simps chain_seeded_objs chain_state_def plain_table_def
        no_table_def)
  have nodes: "set (fst (topological_sort isles_env ?rel)) \<union>
      set (snd (topological_sort isles_env ?rel)) = fst ` set ?rel \<union> snd ` set ?rel"
    by (auto simp: isles_env_simps chain_sort)
  have enum: "set (iter_names isles_env
        (set (tables_without_generics isles_env)
           - set (rev (snd (topological_sort isles_env ?rel))
                  @ rev (fst (topological_sort isles_env ?rel))))) =
      set (tables_without_generics isles_env)
        - set (rev (snd (topological_sort isles_env ?rel))
               @ rev (fst (topological_sort isles_env ?rel)))"
    by (simp only: isles_prepended) (simp only: isles_rest isles_rest_set)
  have "sorted_not_transferred isles_env chain_seeded =
      Inr (iter_names isles_env
             (set (tables_without_generics isles_env)
                - set (rev (snd (topological_sort isles_env ?rel))
                       @ rev (fst (topological_sort isles_env ?rel))))
           @ rev (snd (topological_sort isles_env ?rel))
           @ rev (fst (topological_sort isles_env ?rel)))"
    by (rule org [THEN conjunct1, rule_format]) (rule isles_relatives)
  then have c1: "sorted_not_transferred isles_env chain_seeded =
      Inr [''beta'', ''gamma'', ''org'', ''dept'', ''region'']"
    by (simp only: isles_prepended) (simp add: isles_env_simps chain_sort)
  have "set (iter_names isles_env
        (set (tables_without_generics isles_env)
           - set (rev (snd (topological_sort isles_env ?rel))
                  @ rev (fst (topological_sort isles_env ?rel))))) =
      {n \<in> set (tables isles_env). n \<notin> set (TABLES_WITH_GENERIC_FOREIGN_KEY isles_env)}
        - (fst ` set ?rel \<union> snd ` set ?rel)"
    by (rule org [THEN conjunct2, THEN conjunct2, THEN conjunct1, rule_format])
      (rule conjI [OF nodes enum])
  then have c2: "set (iter_names isles_env
          (set (tables_without_generics isles_env) - set [''org'', ''dept'', ''region''])) =
      {''gamma'', ''beta''}"
    by (simp only: isles_rest isles_free) (simp only: isles_twg)
  have c3: "collect_not_transferred isles_env [''org'', ''dept''] chain_seeded =
      collect_not_transferred isles_env [''dept''] chain_seeded"
    by (rule org [THEN conjunct2, THEN conjunct2, THEN conjunct2, THEN conjunct2, THEN conjunct1,
          rule_format]) (rule ready(1))
  have c4: "collect_not_transferred isles_env [''dept''] chain_seeded =
      collect_importing_fk_tables_records_ids isles_env ''dept'' chain_seeded"
    by (rule dept [THEN conjunct2, THEN conjunct2, THEN conjunct2, THEN conjunct2, THEN conjunct2,
          THEN conjunct1, rule_format]) (rule ready(2))
  from c1 c2 c3 c4 show ?thesis by (intro conjI)
qed

section \<open>The walk along the foreign keys ends (C8)\<close>

text \<open>
  What the walk logs: the fetches log no stack, so the stacks in the log are those of
  \<^verbatim>\<open>_recursively_preparing_table\<close>. With a depth counter that is not negative, a table
  without the key column costs one unit of depth, and the stack grows by at most the
  counter.
\<close>

lemma asyncio_wait_events_inv:
  assumes step: "\<And>x st r st' l. x \<in> set xs \<Longrightarrow> I st \<Longrightarrow> f x st = (r, st', l) \<Longrightarrow>
      I st' \<and> ev \<notin> set l"
    and run: "asyncio_wait f xs s = (s', l)" and inv: "I s"
  shows "ev \<notin> set l"
  using assms
proof (induction xs arbitrary: s s' l)
  case Nil
  then show ?case by simp
next
  case (Cons x xs)
  obtain r s1 l1 where fx: "f x s = (r, s1, l1)" by (cases "f x s") auto
  obtain s2 l2 where w: "asyncio_wait f xs s1 = (s2, l2)" by (cases "asyncio_wait f xs s1") auto
  from Cons.prems(2) fx w have l: "l = l1 @ l2" by simp
  have one: "I s1 \<and> ev \<notin> set l1" using Cons.prems(1) [of x s r s1 l1] Cons.prems(3) fx by simp
  have "ev \<notin> set l2"
  proof (rule Cons.IH [OF _ w])
    fix y st r st' l
    assume "y \<in> set xs" "I st" "f y st = (r, st', l)"
    then show "I st' \<and> ev \<notin> set l" using Cons.prems(1) [of y st r st' l] by simp
  next
    show "I s1" using one by simp
  qed
  with one l show ?case by simp
qed

lemma get_constraint_table_ids_part_no_stack:
  "get_constraint_table_ids_part env sql ids = (x, l) \<Longrightarrow> Debug_stack st \<notin> set l"
  by (auto simp: get_constraint_table_ids_part_def split: if_splits sum.splits error.splits)

lemma get_constraint_table_ids_no_stack:
  "get_constraint_table_ids env sqls ids = (x, l) \<Longrightarrow> Debug_stack st \<notin> set l"
proof (induction sqls arbitrary: ids x l)
  case Nil
  then show ?case by auto
next
  case (Cons sql sqls)
  obtain x1 l1 where p: "get_constraint_table_ids_part env sql ids = (x1, l1)"
    by (cases "get_constraint_table_ids_part env sql ids")
  note e1 = get_constraint_table_ids_part_no_stack [OF p]
  show ?case
  proof (cases x1)
    case (Inl err)
    with Cons.prems p e1 show ?thesis by simp
  next
    case (Inr ids1)
    obtain x2 l2 where r: "get_constraint_table_ids env sqls ids1 = (x2, l2)"
      by (cases "get_constraint_table_ids env sqls ids1")
    from Cons.prems p Inr r have "l = l1 @ l2" by simp
    with e1 Cons.IH [OF r] show ?thesis by simp
  qed
qed

lemma get_table_column_values_no_stack:
  assumes "get_table_column_values env t col pks w rv s = (x, l)"
  shows "Debug_stack st \<notin> set l"
  using assms
  by (auto simp: get_table_column_values_def Let_def
      split: option.splits if_splits prod.splits sum.splits
      dest: get_constraint_table_ids_no_stack)

lemma recursively_preparing_with_key_column:
  shows "recursively_preparing_foreign_table_chunk env ft ch stk d s = (r, s', l) \<Longrightarrow>
      with_key_column (objs s' u) = with_key_column (objs s u)"
    and "recursively_preparing_foreign_table env t c pks stk d s = (r, s', l) \<Longrightarrow>
      with_key_column (objs s' u) = with_key_column (objs s u)"
    and "recursively_preparing_table env t pks stk d s = (r, s', l) \<Longrightarrow>
      with_key_column (objs s' u) = with_key_column (objs s u)"
  by (erule recursively_preparing_rel
      [where R = "\<lambda>a b. with_key_column (objs b u) = with_key_column (objs a u)", rotated 2];
      simp add: update_pks_def)+

lemma recursively_preparing_stack_bound:
  shows "recursively_preparing_foreign_table_chunk env ft ch stk d s = (r, s', l) \<Longrightarrow>
      0 \<le> (if \<not> with_key_column (objs s ft) then d - 1 else d) \<Longrightarrow>
      length stk + nat (if \<not> with_key_column (objs s ft) then d - 1 else d) < length st \<Longrightarrow>
      Debug_stack st \<notin> set l"
    and "recursively_preparing_foreign_table env t c pks stk d s = (r, s', l) \<Longrightarrow>
      1 \<le> d \<Longrightarrow> length stk + nat (d - 1) < length st \<Longrightarrow> Debug_stack st \<notin> set l"
    and "recursively_preparing_table env t pks stk d s = (r, s', l) \<Longrightarrow>
      0 \<le> d \<Longrightarrow> length stk + nat d < length st \<Longrightarrow> Debug_stack st \<notin> set l"
proof (induction env ft ch stk d s and env t c pks stk d s and env t pks stk d s
    arbitrary: r s' l and r s' l and r s' l
    rule: recursively_preparing_foreign_table_chunk_recursively_preparing_foreign_table_recursively_preparing_table.induct)
  case (1 env ft ch stk d s)
  from "1.prems"(1) have run: "recursively_preparing_table env ft ch stk
      (if \<not> with_key_column (objs s ft) then d - 1 else d) s = (r, s', l)"
    by (simp add: recursively_preparing_foreign_table_chunk.simps)
  show ?case by (rule "1.IH" [OF refl run "1.prems"(2) "1.prems"(3)])
next
  case (2 env t c pks stk d s)
  note prem = "2.prems"(1) [unfolded recursively_preparing_foreign_table.simps [of env t c pks stk d s]]
  note d1 = "2.prems"(2) and len = "2.prems"(3)
  show ?case
  proof (cases "constraint_table c")
    case None
    with prem show ?thesis by auto
  next
    case (Some ct)
    show ?thesis
    proof (cases "tables_getitem env ct")
      case (Inl e)
      with prem Some show ?thesis by auto
    next
      case (Inr ft)
      show ?thesis
      proof (cases "ft \<in> set stk \<or> with_key_column (objs s ft)")
        case True
        with prem Some Inr show ?thesis by auto
      next
        case False
        define fetch where "fetch =
          (if with_key_column (objs s t)
           then get_table_column_values env t (Some c) [] None False s
           else get_table_column_values env t (Some c)
                  (if \<not> is_full_transferred (objs s t) then pks else []) None False s)"
        obtain x y where xy: "fetch = (x, y)" by (cases fetch)
        have y: "Debug_stack st \<notin> set y"
          using xy by (auto simp: fetch_def split: if_splits dest: get_table_column_values_no_stack)
        show ?thesis
        proof (cases x)
          case (Inl e)
          with prem Some Inr False xy y show ?thesis by (auto simp: fetch_def [symmetric])
        next
          case (Inr S)
          note xS = this
          define D where "D = S - need_transfer_pks (objs s ft)"
          show ?thesis
          proof (cases "S \<noteq> {} \<and> D \<noteq> {}")
            case False
            with prem Some \<open>tables_getitem env ct = Inr ft\<close> \<open>\<not> (ft \<in> set stk \<or> with_key_column (objs s ft))\<close>
              xy xS y
            show ?thesis by (auto simp: fetch_def [symmetric] D_def Let_def split: if_splits)
          next
            case True
            obtain s2 l2 where w: "asyncio_wait
                (\<lambda>chunk st. recursively_preparing_foreign_table_chunk env ft chunk stk d st)
                (make_chunks (iter_pks env D) (CHUNK_SIZE env)) (update_pks ft D s) = (s2, l2)"
              by (cases "asyncio_wait
                (\<lambda>chunk st. recursively_preparing_foreign_table_chunk env ft chunk stk d st)
                (make_chunks (iter_pks env D) (CHUNK_SIZE env)) (update_pks ft D s)") auto
            have l: "l = y @ l2"
              using prem Some \<open>tables_getitem env ct = Inr ft\<close>
                \<open>\<not> (ft \<in> set stk \<or> with_key_column (objs s ft))\<close> xy xS True w
              by (auto simp: fetch_def [symmetric] D_def [symmetric] Let_def split: if_splits)
            have "Debug_stack st \<notin> set l2"
            proof (rule asyncio_wait_events_inv
                [where I = "\<lambda>a. \<not> with_key_column (objs a ft)", OF _ w])
              fix ch a r' a' l'
              assume ch: "ch \<in> set (make_chunks (iter_pks env D) (CHUNK_SIZE env))"
                and inv: "\<not> with_key_column (objs a ft)"
                and run: "recursively_preparing_foreign_table_chunk env ft ch stk d a = (r', a', l')"
              have "Debug_stack st \<notin> set l'"
                by (rule "2.IH" [OF Some \<open>tables_getitem env ct = Inr ft\<close>
                      \<open>\<not> (ft \<in> set stk \<or> with_key_column (objs s ft))\<close>
                      xy [unfolded fetch_def, symmetric] xS _ D_def _ _ run])
                  (use True ch inv d1 len in \<open>auto simp: D_def\<close>)
              moreover have "\<not> with_key_column (objs a' ft)"
                using recursively_preparing_with_key_column(1) [OF run, of ft] inv by simp
              ultimately show "\<not> with_key_column (objs a' ft) \<and> Debug_stack st \<notin> set l'"
                by simp
            next
              show "\<not> with_key_column (objs (update_pks ft D s) ft)"
                using \<open>\<not> (ft \<in> set stk \<or> with_key_column (objs s ft))\<close>
                by (simp add: update_pks_def)
            qed
            with y l show ?thesis by simp
          qed
        qed
      qed
    qed
  qed
next
  case (3 env t pks stk d s)
  note d0 = "3.prems"(2) and len = "3.prems"(3)
  show ?case
  proof (cases "d = 0")
    case True
    with "3.prems"(1) show ?thesis by (auto simp: recursively_preparing_table.simps)
  next
    case False
    obtain s1 l1 where w: "asyncio_wait
        (\<lambda>column st. recursively_preparing_foreign_table env t column pks (stk @ [t]) d st)
        (not_self_fk_columns (objs s t)) s = (s1, l1)"
      by (cases "asyncio_wait
        (\<lambda>column st. recursively_preparing_foreign_table env t column pks (stk @ [t]) d st)
        (not_self_fk_columns (objs s t)) s") auto
    with "3.prems"(1) False have l: "l = Debug_stack (stk @ [t]) # l1"
      by (auto simp: recursively_preparing_table.simps)
    have "Debug_stack st \<notin> set l1"
    proof (rule asyncio_wait_events_inv [where I = "\<lambda>a. True", OF _ w])
      fix c a r' a' l'
      assume c: "c \<in> set (not_self_fk_columns (objs s t))"
        and run: "recursively_preparing_foreign_table env t c pks (stk @ [t]) d a = (r', a', l')"
      have "Debug_stack st \<notin> set l'"
        by (rule "3.IH" [OF False c run]) (use d0 False len in auto)
      then show "True \<and> Debug_stack st \<notin> set l'" by simp
    qed simp
    moreover have "st \<noteq> stk @ [t]" using len d0 False by auto
    ultimately show ?thesis using l by simp
  qed
qed

text \<open>The walk on the cycle, started at \<^verbatim>\<open>a\<close> with depth 2.\<close>

lemma cycle_env_simps:
  "tables cycle_env = [''a'', ''b'']"
  "iter_pks cycle_env = sorted_list_of_set"
  "CHUNK_SIZE cycle_env = 70000"
  by (simp_all add: cycle_env_def source_env_def)

lemma cycle_objs:
  "with_key_column (objs cycle_seeded ''a'') = False"
  "with_key_column (objs cycle_seeded ''b'') = False"
  "is_full_transferred (objs cycle_seeded ''a'') = False"
  "primary_key (objs cycle_seeded ''a'') = Some (pk_column ''a'' ''integer'')"
  "need_transfer_pks (objs cycle_seeded ''b'') = {}"
  "not_self_fk_columns (objs cycle_seeded ''a'') = [fk_column ''b_id'' ''b'']"
  "not_self_fk_columns (objs cycle_seeded ''b'') = [fk_column ''a_id'' ''a'']"
  by (simp_all add: cycle_seeded_def set_ready_def update_pks_def cycle_state_def
      plain_table_def no_table_def fk_column_def)

lemma cycle_select:
  "select_column_values cycle_source k
     \<lparr>q_table = ''a'', q_table_obj = objs cycle_seeded ''a'',
      q_column = fk_column ''b_id'' ''b'', q_key_column_values = seed,
      q_primary_key_values = [1], q_where_conditions_columns = None, q_is_revert = rv\<rparr> =
   [Some 5]"
  by (simp add: select_column_values_def cycle_objs cycle_source_def row_value_def
      pk_column_def fk_column_def)

lemma cycle_fetch:
  "get_table_column_values cycle_env ''a'' (Some (fk_column ''b_id'' ''b'')) [1] None False
     cycle_seeded =
   (Inr {5},
    [Fetch_call ''a'' (Some (fk_column ''b_id'' ''b'')) [1] None False,
     Debug_sql \<lparr>q_table = ''a'', q_table_obj = objs cycle_seeded ''a'',
       q_column = fk_column ''b_id'' ''b'', q_key_column_values = {1},
       q_primary_key_values = [1], q_where_conditions_columns = None, q_is_revert = False\<rparr>])"
proof -
  have ct: "constraint_table (fk_column ''b_id'' ''b'') = Some ''b''"
    by (simp add: fk_column_def)
  show ?thesis
    by (simp add: get_table_column_values_def ct cycle_env_def source_env_def
        get_constraint_table_ids_part_def cycle_select)
qed

lemma cycle_skip:
  "recursively_preparing_foreign_table cycle_env ''b'' (fk_column ''a_id'' ''a'') pks
     [''a'', ''b''] d s = (Inr (), s, [])"
proof -
  have ct: "constraint_table (fk_column ''a_id'' ''a'') = Some ''a''"
    by (simp add: fk_column_def)
  show ?thesis
    by (simp add: recursively_preparing_foreign_table.simps ct tables_getitem_def cycle_env_simps)
qed

lemma cycle_inner:
  assumes "not_self_fk_columns (objs s ''b'') = [fk_column ''a_id'' ''a'']"
    and "\<not> with_key_column (objs s ''b'')"
  shows "recursively_preparing_foreign_table_chunk cycle_env ''b'' ch [''a''] 2 s =
     (Inr (), s, [Debug_stack [''a'', ''b'']])"
  using assms
  by (simp add: recursively_preparing_foreign_table_chunk.simps
      recursively_preparing_table.simps cycle_skip)

lemma cycle_walk:
  "recursively_preparing_table cycle_env ''a'' [1] [] 2 cycle_seeded =
     (Inr (), update_pks ''b'' {5} cycle_seeded,
      [Debug_stack [''a''],
       Fetch_call ''a'' (Some (fk_column ''b_id'' ''b'')) [1] None False,
       Debug_sql \<lparr>q_table = ''a'', q_table_obj = objs cycle_seeded ''a'',
         q_column = fk_column ''b_id'' ''b'', q_key_column_values = {1},
         q_primary_key_values = [1], q_where_conditions_columns = None, q_is_revert = False\<rparr>,
       Debug_stack [''a'', ''b'']])"
proof -
  have ct: "constraint_table (fk_column ''b_id'' ''b'') = Some ''b''"
    by (simp add: fk_column_def)
  have ch: "make_chunks [5::int] 70000 = [[5]]"
    by (simp add: make_chunks.simps)
  have inner: "recursively_preparing_foreign_table_chunk cycle_env ''b'' [5] [''a''] 2
      (update_pks ''b'' {5} cycle_seeded) =
     (Inr (), update_pks ''b'' {5} cycle_seeded, [Debug_stack [''a'', ''b'']])"
    by (rule cycle_inner) (simp_all add: update_pks_def cycle_objs)
  have foreign: "recursively_preparing_foreign_table cycle_env ''a'' (fk_column ''b_id'' ''b'')
      [1] [''a''] 2 cycle_seeded =
     (Inr (), update_pks ''b'' {5} cycle_seeded,
      [Fetch_call ''a'' (Some (fk_column ''b_id'' ''b'')) [1] None False,
       Debug_sql \<lparr>q_table = ''a'', q_table_obj = objs cycle_seeded ''a'',
         q_column = fk_column ''b_id'' ''b'', q_key_column_values = {1},
         q_primary_key_values = [1], q_where_conditions_columns = None, q_is_revert = False\<rparr>,
       Debug_stack [''a'', ''b'']])"
    by (simp add: recursively_preparing_foreign_table.simps
        [of cycle_env "''a''" "fk_column ''b_id'' ''b''" "[1]" "[''a'']" 2 cycle_seeded]
        ct tables_getitem_def cycle_env_simps cycle_objs cycle_fetch ch inner)
  show ?thesis
    by (simp add: recursively_preparing_table.simps [of cycle_env "''a''" "[1]" "[]" 2 cycle_seeded]
        cycle_objs foreign)
qed

lemma get_table_column_values_objs:
  "objs s t = objs s' t \<Longrightarrow>
     get_table_column_values env t col pks w rv s = get_table_column_values env t col pks w rv s'"
  by (simp add: get_table_column_values_def Let_def split: option.splits)

lemma foreign_table_difference:
  assumes "constraint_table c = Some u" and "u \<in> set (tables env)" and "u \<notin> set stk"
    and "\<not> with_key_column (objs s u)"
    and "get_table_column_values env t (Some c)
           (if with_key_column (objs s t) \<or> is_full_transferred (objs s t) then [] else pks)
           None False s = (Inr S, l0)"
  shows "recursively_preparing_foreign_table env t c pks stk d s =
     (if S \<subseteq> need_transfer_pks (objs s u) then (Inr (), s, l0)
      else case asyncio_wait
                  (\<lambda>chunk st. recursively_preparing_foreign_table_chunk env u chunk stk d st)
                  (make_chunks (iter_pks env (S - need_transfer_pks (objs s u))) (CHUNK_SIZE env))
                  (update_pks u (S - need_transfer_pks (objs s u)) s) of
             (s2, l2) \<Rightarrow> (Inr (), s2, l0 @ l2))"
proof -
  have fetch: "(if with_key_column (objs s t)
        then get_table_column_values env t (Some c) [] None False s
        else get_table_column_values env t (Some c)
               (if \<not> is_full_transferred (objs s t) then pks else []) None False s) = (Inr S, l0)"
    using assms(5) by (auto split: if_splits)
  have empty: "S = {} \<Longrightarrow> S \<subseteq> need_transfer_pks (objs s u)" by simp
  show ?thesis
    unfolding recursively_preparing_foreign_table.simps [of env t c pks stk d s]
    using assms(1-4) empty
    by (simp only: fetch) (auto simp: tables_getitem_def Let_def)
qed

text \<open>
  C8. \<^verbatim>\<open>collect\<close> returns on every schema, cyclic or not: the three functions of the walk
  are total, because every step from a column into the referenced table puts a table of
  the schema on the stack that was not there, and every other loop runs over a list. The
  walk stops at depth 0 with the state unchanged; a column whose referenced table is on
  the stack or has the key column is passed over with the state unchanged and no query;
  otherwise, with \<open>S\<close> the fetched values, nothing happens when \<open>S\<close> holds no ID that is new
  to the referenced table, and else exactly the new IDs are added and passed on in
  chunks; and with a depth counter \<open>d\<close> that is not negative every stack the walk logs is
  at most \<open>d\<close> longer than the stack it was started with.
\<close>

theorem C8_cycle_safety:
  "(\<exists>s' l. collect env s = (Inr (), s', l)) \<and>
   recursively_preparing_table env t pks stk 0 s = (Inr (), s, [Debug_max_deep]) \<and>
   (constraint_table c = Some u \<and> u \<in> set (tables env) \<and>
    (u \<in> set stk \<or> with_key_column (objs s u)) \<longrightarrow>
      recursively_preparing_foreign_table env t c pks stk d s = (Inr (), s, [])) \<and>
   (constraint_table c = Some u \<and> u \<in> set (tables env) \<and> u \<notin> set stk \<and>
    \<not> with_key_column (objs s u) \<and>
    get_table_column_values env t (Some c)
      (if with_key_column (objs s t) \<or> is_full_transferred (objs s t) then [] else pks)
      None False s = (Inr S, l0) \<longrightarrow>
      recursively_preparing_foreign_table env t c pks stk d s =
        (if S \<subseteq> need_transfer_pks (objs s u) then (Inr (), s, l0)
         else case asyncio_wait
                     (\<lambda>chunk st. recursively_preparing_foreign_table_chunk env u chunk stk d st)
                     (make_chunks (iter_pks env (S - need_transfer_pks (objs s u)))
                        (CHUNK_SIZE env))
                     (update_pks u (S - need_transfer_pks (objs s u)) s) of
                (s2, l2) \<Rightarrow> (Inr (), s2, l0 @ l2))) \<and>
   (0 \<le> d \<and> Debug_stack st \<in> set (snd (snd (recursively_preparing_table env t pks stk d s))) \<longrightarrow>
      length st \<le> length stk + nat d)"
proof (intro conjI impI)
  show "\<exists>s' l. collect env s = (Inr (), s', l)"
    by (simp add: collect_def split: prod.splits)
next
  show "recursively_preparing_table env t pks stk 0 s = (Inr (), s, [Debug_max_deep])"
    by (simp add: recursively_preparing_table.simps)
next
  assume "constraint_table c = Some u \<and> u \<in> set (tables env) \<and>
    (u \<in> set stk \<or> with_key_column (objs s u))"
  then show "recursively_preparing_foreign_table env t c pks stk d s = (Inr (), s, [])"
    by (auto simp: recursively_preparing_foreign_table.simps tables_getitem_def)
next
  assume "constraint_table c = Some u \<and> u \<in> set (tables env) \<and> u \<notin> set stk \<and>
    \<not> with_key_column (objs s u) \<and>
    get_table_column_values env t (Some c)
      (if with_key_column (objs s t) \<or> is_full_transferred (objs s t) then [] else pks)
      None False s = (Inr S, l0)"
  then show "recursively_preparing_foreign_table env t c pks stk d s =
        (if S \<subseteq> need_transfer_pks (objs s u) then (Inr (), s, l0)
         else case asyncio_wait
                     (\<lambda>chunk st. recursively_preparing_foreign_table_chunk env u chunk stk d st)
                     (make_chunks (iter_pks env (S - need_transfer_pks (objs s u)))
                        (CHUNK_SIZE env))
                     (update_pks u (S - need_transfer_pks (objs s u)) s) of
                (s2, l2) \<Rightarrow> (Inr (), s2, l0 @ l2))"
    by (intro foreign_table_difference) simp_all
next
  assume a: "0 \<le> d \<and>
    Debug_stack st \<in> set (snd (snd (recursively_preparing_table env t pks stk d s)))"
  obtain r s' l where run: "recursively_preparing_table env t pks stk d s = (r, s', l)"
    by (cases "recursively_preparing_table env t pks stk d s") auto
  show "length st \<le> length stk + nat d"
  proof (rule ccontr)
    assume "\<not> length st \<le> length stk + nat d"
    then have "length stk + nat d < length st" by simp
    from recursively_preparing_stack_bound(3) [OF run _ this] a run show False by simp
  qed
qed

text \<open>
  C8, witness: on the cycle the walk from \<^verbatim>\<open>a\<close> with depth 2 reaches the stack
  \<^verbatim>\<open>a, b\<close> and no longer one; the column of \<^verbatim>\<open>b\<close> that leads back to \<^verbatim>\<open>a\<close> is passed
  over; the column of \<^verbatim>\<open>a\<close> puts 5 into \<^verbatim>\<open>b\<close>, and on a second visit, when 5 is there,
  changes nothing.
\<close>

theorem C8_cycle_safety_witness:
  "Debug_stack [''a'', ''b''] \<in>
     set (snd (snd (recursively_preparing_table cycle_env ''a'' [1] [] 2 cycle_seeded))) \<and>
   length [''a'', ''b''] \<le> length ([] :: string list) + nat 2 \<and>
   recursively_preparing_foreign_table cycle_env ''b'' (fk_column ''a_id'' ''a'') [5]
     [''a'', ''b''] 1 (update_pks ''b'' {5} cycle_seeded) =
     (Inr (), update_pks ''b'' {5} cycle_seeded, []) \<and>
   fst (snd (recursively_preparing_foreign_table cycle_env ''a'' (fk_column ''b_id'' ''b'') [1]
     [''a''] 2 cycle_seeded)) = update_pks ''b'' {5} cycle_seeded \<and>
   fst (snd (recursively_preparing_foreign_table cycle_env ''a'' (fk_column ''b_id'' ''b'') [1]
     [''a''] 2 (update_pks ''b'' {5} cycle_seeded))) = update_pks ''b'' {5} cycle_seeded"
proof -
  let ?q = "\<lparr>q_table = ''a'', q_table_obj = objs cycle_seeded ''a'',
     q_column = fk_column ''b_id'' ''b'', q_key_column_values = {1},
     q_primary_key_values = [1], q_where_conditions_columns = None, q_is_revert = False\<rparr>"
  let ?l0 = "[Fetch_call ''a'' (Some (fk_column ''b_id'' ''b'')) [1] None False, Debug_sql ?q]"
  have cta: "constraint_table (fk_column ''a_id'' ''a'') = Some ''a''"
    and ctb: "constraint_table (fk_column ''b_id'' ''b'') = Some ''b''"
    by (simp_all add: fk_column_def)
  have ch: "make_chunks [5::int] 70000 = [[5]]"
    by (simp add: make_chunks.simps)
  have inner: "recursively_preparing_foreign_table_chunk cycle_env ''b'' [5] [''a''] 2
      (update_pks ''b'' {5} cycle_seeded) =
     (Inr (), update_pks ''b'' {5} cycle_seeded, [Debug_stack [''a'', ''b'']])"
    by (rule cycle_inner) (simp_all add: update_pks_def cycle_objs)
  have again: "get_table_column_values cycle_env ''a'' (Some (fk_column ''b_id'' ''b'')) [1]
      None False (update_pks ''b'' {5} cycle_seeded) = (Inr {5}, ?l0)"
  proof -
    have "objs (update_pks ''b'' {5} cycle_seeded) ''a'' = objs cycle_seeded ''a''"
      by (simp add: update_pks_def)
    then show ?thesis
      by (simp only: get_table_column_values_objs [of "update_pks ''b'' {5} cycle_seeded"
            "''a''" cycle_seeded] cycle_fetch)
  qed
  have bound: "Debug_stack [''a'', ''b''] \<in>
       set (snd (snd (recursively_preparing_table cycle_env ''a'' [1] [] 2 cycle_seeded))) \<and>
     length [''a'', ''b''] \<le> length ([] :: string list) + nat 2"
    using C8_cycle_safety [where env = cycle_env and t = "''a''" and pks = "[1]"
        and stk = "[]" and d = 2 and s = cycle_seeded and st = "[''a'', ''b'']"]
    by (simp add: cycle_walk)
  have skip: "recursively_preparing_foreign_table cycle_env ''b'' (fk_column ''a_id'' ''a'') [5]
       [''a'', ''b''] 1 (update_pks ''b'' {5} cycle_seeded) =
     (Inr (), update_pks ''b'' {5} cycle_seeded, [])"
    using C8_cycle_safety [where env = cycle_env and t = "''b''"
        and c = "fk_column ''a_id'' ''a''" and u = "''a''" and pks = "[5]"
        and stk = "[''a'', ''b'']" and d = 1 and s = "update_pks ''b'' {5} cycle_seeded"]
    by (simp add: cta cycle_env_simps)
  have new: "fst (snd (recursively_preparing_foreign_table cycle_env ''a''
       (fk_column ''b_id'' ''b'') [1] [''a''] 2 cycle_seeded)) = update_pks ''b'' {5} cycle_seeded"
    using C8_cycle_safety [where env = cycle_env and t = "''a''"
        and c = "fk_column ''b_id'' ''b''" and u = "''b''" and pks = "[1]"
        and stk = "[''a'']" and d = 2 and s = cycle_seeded and S = "{5}" and ?l0.0 = ?l0]
    by (simp add: ctb cycle_env_simps cycle_objs cycle_fetch ch inner)
  have old: "fst (snd (recursively_preparing_foreign_table cycle_env ''a''
       (fk_column ''b_id'' ''b'') [1] [''a''] 2 (update_pks ''b'' {5} cycle_seeded))) =
     update_pks ''b'' {5} cycle_seeded"
    using C8_cycle_safety [where env = cycle_env and t = "''a''"
        and c = "fk_column ''b_id'' ''b''" and u = "''b''" and pks = "[1]"
        and stk = "[''a'']" and d = 2 and s = "update_pks ''b'' {5} cycle_seeded"
        and S = "{5}" and ?l0.0 = ?l0]
      again
    by (simp add: ctb cycle_env_simps cycle_objs update_pks_def)
  from bound skip new old show ?thesis by simp
qed

section \<open>The chunk size (C9)\<close>

text \<open>
  Every function but the two that cut a set into chunks ignores the chunk size.
\<close>

named_theorems chunk_free \<open>functions that do not read the chunk size\<close>

lemma tables_getitem_chunk [chunk_free]:
  "tables_getitem (env\<lparr>CHUNK_SIZE := n\<rparr>) = tables_getitem env"
  by (simp add: tables_getitem_def fun_eq_iff
      cong: option.case_cong sum.case_cong prod.case_cong if_cong)

lemma tables_get_chunk [chunk_free]:
  "tables_get (env\<lparr>CHUNK_SIZE := n\<rparr>) = tables_get env"
  by (simp add: tables_get_def fun_eq_iff
      cong: option.case_cong sum.case_cong prod.case_cong if_cong)

lemma tables_with_key_column_chunk [chunk_free]:
  "tables_with_key_column (env\<lparr>CHUNK_SIZE := n\<rparr>) = tables_with_key_column env"
  by (simp add: tables_with_key_column_def fun_eq_iff
      cong: option.case_cong sum.case_cong prod.case_cong if_cong)

lemma tables_without_generics_chunk [chunk_free]:
  "tables_without_generics (env\<lparr>CHUNK_SIZE := n\<rparr>) = tables_without_generics env"
  by (simp add: tables_without_generics_def
      cong: option.case_cong sum.case_cong prod.case_cong if_cong)

lemma get_constraint_table_ids_part_chunk [chunk_free]:
  "get_constraint_table_ids_part (env\<lparr>CHUNK_SIZE := n\<rparr>) = get_constraint_table_ids_part env"
  by (simp add: get_constraint_table_ids_part_def fun_eq_iff
      cong: option.case_cong sum.case_cong prod.case_cong if_cong)

lemma get_constraint_table_ids_chunk [chunk_free]:
  "get_constraint_table_ids (env\<lparr>CHUNK_SIZE := n\<rparr>) sqls ids =
     get_constraint_table_ids env sqls ids"
  by (induction sqls arbitrary: ids) (simp_all add: chunk_free
      cong: option.case_cong sum.case_cong prod.case_cong if_cong)

lemma get_table_column_values_chunk [chunk_free]:
  "get_table_column_values (env\<lparr>CHUNK_SIZE := n\<rparr>) = get_table_column_values env"
  by (simp add: get_table_column_values_def fun_eq_iff chunk_free
      cong: option.case_cong sum.case_cong prod.case_cong if_cong)

lemma collect_key_table_values_chunk [chunk_free]:
  "collect_key_table_values (env\<lparr>CHUNK_SIZE := n\<rparr>) = collect_key_table_values env"
  by (simp add: collect_key_table_values_def fun_eq_iff chunk_free
      cong: option.case_cong sum.case_cong prod.case_cong if_cong)

lemma collect_revert_table_ids_chunk [chunk_free]:
  "collect_revert_table_ids (env\<lparr>CHUNK_SIZE := n\<rparr>) = collect_revert_table_ids env"
  by (simp add: collect_revert_table_ids_def fun_eq_iff chunk_free
      cong: option.case_cong sum.case_cong prod.case_cong if_cong)

lemma collect_importing_revert_tables_data_chunk [chunk_free]:
  "collect_importing_revert_tables_data (env\<lparr>CHUNK_SIZE := n\<rparr>) =
     collect_importing_revert_tables_data env"
  by (simp add: collect_importing_revert_tables_data_def fun_eq_iff chunk_free
      cong: option.case_cong sum.case_cong prod.case_cong if_cong)

lemma where_conditions_loop_chunk [chunk_free]:
  "where_conditions_loop (env\<lparr>CHUNK_SIZE := n\<rparr>) s cs w b = where_conditions_loop env s cs w b"
  by (induction cs arbitrary: w b)
    (simp_all add: chunk_free
      cong: option.case_cong sum.case_cong prod.case_cong if_cong)

lemma collect_importing_fk_tables_records_ids_chunk [chunk_free]:
  "collect_importing_fk_tables_records_ids (env\<lparr>CHUNK_SIZE := n\<rparr>) =
     collect_importing_fk_tables_records_ids env"
  by (simp add: collect_importing_fk_tables_records_ids_def fun_eq_iff chunk_free
      cong: option.case_cong sum.case_cong prod.case_cong if_cong)

lemma sorted_not_transferred_chunk [chunk_free]:
  "sorted_not_transferred (env\<lparr>CHUNK_SIZE := n\<rparr>) = sorted_not_transferred env"
  by (simp add: sorted_not_transferred_def fun_eq_iff chunk_free
      cong: option.case_cong sum.case_cong prod.case_cong if_cong)

lemma collect_not_transferred_chunk [chunk_free]:
  "collect_not_transferred (env\<lparr>CHUNK_SIZE := n\<rparr>) ts s = collect_not_transferred env ts s"
  by (induction ts arbitrary: s)
    (simp_all add: chunk_free
      cong: option.case_cong sum.case_cong prod.case_cong if_cong)

lemma prepare_content_type_tables_chunk [chunk_free]:
  "prepare_content_type_tables (env\<lparr>CHUNK_SIZE := n\<rparr>) = prepare_content_type_tables env"
  by (simp add: prepare_content_type_tables_def fun_eq_iff
      cong: option.case_cong sum.case_cong prod.case_cong if_cong)

lemma prepare_content_type_generic_data_chunk [chunk_free]:
  "prepare_content_type_generic_data (env\<lparr>CHUNK_SIZE := n\<rparr>) =
     prepare_content_type_generic_data env"
  by (simp add: prepare_content_type_generic_data_def fun_eq_iff chunk_free
      cong: option.case_cong sum.case_cong prod.case_cong if_cong)

lemma prepare_generic_table_data_chunk [chunk_free]:
  "prepare_generic_table_data (env\<lparr>CHUNK_SIZE := n\<rparr>) = prepare_generic_table_data env"
  by (simp add: prepare_generic_table_data_def fun_eq_iff chunk_free
      cong: option.case_cong sum.case_cong prod.case_cong if_cong)

lemma collect_generic_tables_records_ids_chunk [chunk_free]:
  "collect_generic_tables_records_ids (env\<lparr>CHUNK_SIZE := n\<rparr>) =
     collect_generic_tables_records_ids env"
  by (simp add: collect_generic_tables_records_ids_def fun_eq_iff chunk_free
      cong: option.case_cong sum.case_cong prod.case_cong if_cong)

text \<open>
  A table with the key column is walked with depth 1: the fetch of a column takes no
  primary keys, and a chunk of the referenced table meets depth 0. So every chunk of
  the table's own keys does the same pass over the columns, and a second pass changes
  nothing.
\<close>

lemma asyncio_wait_Cons_fst:
  "fst (asyncio_wait f (x # xs) s) = fst (asyncio_wait f xs (fst (snd (f x s))))"
  by (simp split: prod.splits)

lemma update_pks_absorb:
  "S \<subseteq> need_transfer_pks (objs s u) \<Longrightarrow> update_pks u S s = s"
  by (simp add: update_pks_def Un_absorb2)

lemma update_pks_difference:
  "update_pks u (S - need_transfer_pks (objs s u)) s = update_pks u S s"
  by (simp add: update_pks_def)

lemma chunk_depth_one:
  "\<not> with_key_column (objs s u) \<Longrightarrow>
     recursively_preparing_foreign_table_chunk env u ch stk 1 s = (Inr (), s, [Debug_max_deep])"
  by (simp add: recursively_preparing_foreign_table_chunk.simps recursively_preparing_table.simps)

lemma chunks_depth_one:
  "\<not> with_key_column (objs s u) \<Longrightarrow>
     fst (asyncio_wait (\<lambda>chunk st. recursively_preparing_foreign_table_chunk env u chunk stk 1 st)
            chs s) = s"
  by (induction chs) (simp_all add: asyncio_wait_Cons_fst chunk_depth_one del: asyncio_wait.simps(2))

lemma foreign_key_column_step:
  assumes wk: "with_key_column (objs s t)"
  shows "fst (snd (recursively_preparing_foreign_table env t c pks [t] 1 s)) =
     key_column_step env t c s"
proof (cases "constraint_table c")
  case None
  then show ?thesis
    by (simp add: recursively_preparing_foreign_table.simps key_column_step_def)
next
  case (Some ct)
  show ?thesis
  proof (cases "ct \<in> set (tables env) \<and> ct \<noteq> t \<and> \<not> with_key_column (objs s ct)")
    case False
    with Some show ?thesis
      by (auto simp: recursively_preparing_foreign_table.simps key_column_step_def
          tables_getitem_def)
  next
    case True
    obtain x y where xy: "get_table_column_values env t (Some c) [] None False s = (x, y)"
      by (cases "get_table_column_values env t (Some c) [] None False s")
    show ?thesis
    proof (cases x)
      case (Inl e)
      with Some True xy wk show ?thesis
        by (simp add: recursively_preparing_foreign_table.simps key_column_step_def
            tables_getitem_def)
    next
      case (Inr S)
      let ?D = "S - need_transfer_pks (objs s ct)"
      have nk: "\<not> with_key_column (objs (update_pks ct ?D s) ct)"
        using True by (simp add: update_pks_def)
      have step: "key_column_step env t c s = update_pks ct S s"
        using Some True xy Inr by (simp add: key_column_step_def)
      show ?thesis
      proof (cases "S \<noteq> {} \<and> ?D \<noteq> {}")
        case False
        then have "S \<subseteq> need_transfer_pks (objs s ct)" by auto
        then have "update_pks ct S s = s" by (rule update_pks_absorb)
        with False Some True xy Inr wk step show ?thesis
          by (auto simp: recursively_preparing_foreign_table.simps tables_getitem_def Let_def)
      next
        case D: True
        have "fst (snd (recursively_preparing_foreign_table env t c pks [t] 1 s)) =
          fst (asyncio_wait
                 (\<lambda>chunk st. recursively_preparing_foreign_table_chunk env ct chunk [t] 1 st)
                 (make_chunks (iter_pks env ?D) (CHUNK_SIZE env)) (update_pks ct ?D s))"
          using D Some True xy Inr wk
          by (simp add: recursively_preparing_foreign_table.simps [of env t c pks "[t]" 1 s]
              tables_getitem_def Let_def split: prod.splits)
        also have "\<dots> = update_pks ct ?D s" by (rule chunks_depth_one [OF nk])
        also have "\<dots> = update_pks ct S s" by (rule update_pks_difference)
        finally show ?thesis using step by simp
      qed
    qed
  qed
qed

lemma asyncio_wait_fold:
  assumes "\<And>x st. x \<in> set xs \<Longrightarrow> I st \<Longrightarrow> fst (snd (f x st)) = g x st \<and> I (g x st)"
    and "I s"
  shows "fst (asyncio_wait f xs s) = fold g xs s \<and> I (fold g xs s)"
  using assms
proof (induction xs arbitrary: s)
  case Nil
  then show ?case by simp
next
  case (Cons x xs)
  have one: "fst (snd (f x s)) = g x s \<and> I (g x s)"
    using Cons.prems(1) [of x s] Cons.prems(2) by simp
  have "fst (asyncio_wait f xs (g x s)) = fold g xs (g x s) \<and> I (fold g xs (g x s))"
  proof (rule Cons.IH)
    fix y st
    assume "y \<in> set xs" "I st"
    then show "fst (snd (f y st)) = g y st \<and> I (g y st)" using Cons.prems(1) [of y st] by simp
  next
    show "I (g x s)" using one by simp
  qed
  with one show ?case by (simp add: asyncio_wait_Cons_fst del: asyncio_wait.simps(2))
qed

lemma key_column_step_frame:
  "objs (key_column_step env t c s) t = objs s t"
  "with_key_column (objs (key_column_step env t c s) u) = with_key_column (objs s u)"
  "need_transfer_pks (objs s u) \<subseteq> need_transfer_pks (objs (key_column_step env t c s) u)"
  by (auto simp: key_column_step_def update_pks_def split: option.splits sum.splits)

lemma table_key_column_pass:
  assumes wk: "with_key_column (objs s t)"
  shows "fst (snd (recursively_preparing_table env t pks [] 1 s)) = key_column_pass env t s"
proof -
  have "fst (asyncio_wait
          (\<lambda>column st. recursively_preparing_foreign_table env t column pks ([] @ [t]) 1 st)
          (not_self_fk_columns (objs s t)) s) =
        fold (key_column_step env t) (not_self_fk_columns (objs s t)) s \<and>
        with_key_column (objs (fold (key_column_step env t) (not_self_fk_columns (objs s t)) s) t)"
    by (rule asyncio_wait_fold [where I = "\<lambda>a. with_key_column (objs a t)"])
      (simp_all add: foreign_key_column_step key_column_step_frame wk)
  then show ?thesis
    by (auto simp: recursively_preparing_table.simps [of env t pks "[]" 1 s] key_column_pass_def
        split: prod.splits)
qed

lemma update_pks_fixed:
  "update_pks u S s = s \<Longrightarrow> S \<subseteq> need_transfer_pks (objs s u)"
proof -
  assume "update_pks u S s = s"
  then have "need_transfer_pks (objs (update_pks u S s) u) = need_transfer_pks (objs s u)"
    by simp
  then show ?thesis by (auto simp: update_pks_def)
qed

lemma key_column_step_later:
  assumes "objs s' t = objs s t" and "\<And>u. with_key_column (objs s' u) = with_key_column (objs s u)"
  shows "key_column_step env t c s' =
     (case constraint_table c of
        None \<Rightarrow> s'
      | Some ct \<Rightarrow>
          if ct \<in> set (tables env) \<and> ct \<noteq> t \<and> \<not> with_key_column (objs s ct) then
            (case fst (get_table_column_values env t (Some c) [] None False s) of
               Inl e \<Rightarrow> s'
             | Inr S \<Rightarrow> update_pks ct S s')
          else s')"
  using assms(2) get_table_column_values_objs [OF assms(1), of env "Some c" "[]" None False]
  by (simp add: key_column_step_def cong: option.case_cong if_cong)

lemma key_column_step_idem:
  "key_column_step env t c (key_column_step env t c s) = key_column_step env t c s"
proof -
  let ?s1 = "key_column_step env t c s"
  have "key_column_step env t c ?s1 =
     (case constraint_table c of
        None \<Rightarrow> ?s1
      | Some ct \<Rightarrow>
          if ct \<in> set (tables env) \<and> ct \<noteq> t \<and> \<not> with_key_column (objs s ct) then
            (case fst (get_table_column_values env t (Some c) [] None False s) of
               Inl e \<Rightarrow> ?s1
             | Inr S \<Rightarrow> update_pks ct S ?s1)
          else ?s1)"
    by (rule key_column_step_later) (simp_all add: key_column_step_frame)
  also have "\<dots> = ?s1"
  proof (cases "constraint_table c")
    case None
    then show ?thesis by simp
  next
    case (Some ct)
    show ?thesis
    proof (cases "fst (get_table_column_values env t (Some c) [] None False s)")
      case (Inl e)
      with Some show ?thesis by simp
    next
      case (Inr S)
      have "ct \<in> set (tables env) \<and> ct \<noteq> t \<and> \<not> with_key_column (objs s ct) \<Longrightarrow>
          update_pks ct S ?s1 = ?s1"
        by (rule update_pks_absorb) (simp add: key_column_step_def Some Inr update_pks_def)
      with Some Inr show ?thesis by simp
    qed
  qed
  finally show ?thesis .
qed

lemma key_column_step_fixed:
  assumes fixp: "key_column_step env t c s = s"
  shows "key_column_step env t c (key_column_step env t c' s) = key_column_step env t c' s"
proof -
  let ?s2 = "key_column_step env t c' s"
  have "key_column_step env t c ?s2 =
     (case constraint_table c of
        None \<Rightarrow> ?s2
      | Some ct \<Rightarrow>
          if ct \<in> set (tables env) \<and> ct \<noteq> t \<and> \<not> with_key_column (objs s ct) then
            (case fst (get_table_column_values env t (Some c) [] None False s) of
               Inl e \<Rightarrow> ?s2
             | Inr S \<Rightarrow> update_pks ct S ?s2)
          else ?s2)"
    by (rule key_column_step_later) (simp_all add: key_column_step_frame)
  also have "\<dots> = ?s2"
  proof (cases "constraint_table c")
    case None
    then show ?thesis by simp
  next
    case (Some ct)
    show ?thesis
    proof (cases "fst (get_table_column_values env t (Some c) [] None False s)")
      case (Inl e)
      with Some show ?thesis by simp
    next
      case (Inr S)
      have "update_pks ct S ?s2 = ?s2"
        if "ct \<in> set (tables env) \<and> ct \<noteq> t \<and> \<not> with_key_column (objs s ct)"
      proof (rule update_pks_absorb)
        from fixp that Some Inr have "update_pks ct S s = s"
          by (simp add: key_column_step_def)
        then have "S \<subseteq> need_transfer_pks (objs s ct)" by (rule update_pks_fixed)
        with key_column_step_frame(3) [of s ct env t c']
        show "S \<subseteq> need_transfer_pks (objs ?s2 ct)" by blast
      qed
      with Some Inr show ?thesis by simp
    qed
  qed
  finally show ?thesis .
qed

lemma key_column_fold_fixed:
  "key_column_step env t c s = s \<Longrightarrow>
     key_column_step env t c (fold (key_column_step env t) cs s) =
       fold (key_column_step env t) cs s"
  by (induction cs arbitrary: s) (simp_all add: key_column_step_fixed)

lemma key_column_fold_saturated:
  "c \<in> set cs \<Longrightarrow>
     key_column_step env t c (fold (key_column_step env t) cs s) =
       fold (key_column_step env t) cs s"
proof (induction cs arbitrary: s)
  case Nil
  then show ?case by simp
next
  case (Cons a cs)
  show ?case
  proof (cases "c = a")
    case True
    then show ?thesis
      using key_column_fold_fixed [where s = "key_column_step env t a s" and c = a
          and cs = cs and env = env and t = t, OF key_column_step_idem]
      by simp
  next
    case False
    with Cons show ?thesis by simp
  qed
qed

lemma key_column_fold_id:
  "(\<And>c. c \<in> set cs \<Longrightarrow> key_column_step env t c s = s) \<Longrightarrow>
     fold (key_column_step env t) cs s = s"
  by (induction cs) simp_all

lemma key_column_fold_frame:
  "objs (fold (key_column_step env t) cs s) t = objs s t"
  "with_key_column (objs (fold (key_column_step env t) cs s) u) = with_key_column (objs s u)"
  by (induction cs arbitrary: s) (simp_all add: key_column_step_frame)

lemma key_column_pass_frame:
  "objs (key_column_pass env t s) t = objs s t"
  "with_key_column (objs (key_column_pass env t s) u) = with_key_column (objs s u)"
  by (simp_all add: key_column_pass_def key_column_fold_frame)

lemma key_column_pass_idem:
  "key_column_pass env t (key_column_pass env t s) = key_column_pass env t s"
  unfolding key_column_pass_def [of env t "key_column_pass env t s"] key_column_pass_frame
  unfolding key_column_pass_def
  by (rule key_column_fold_id) (rule key_column_fold_saturated)

lemma key_column_chunks:
  assumes "with_key_column (objs s t)"
  shows "fst (asyncio_wait
            (\<lambda>chunk st. recursively_preparing_table_with_key_column env t chunk st) chs s) =
     (if chs = [] then s else key_column_pass env t s)"
proof -
  have "fst (asyncio_wait
            (\<lambda>chunk st. recursively_preparing_table_with_key_column env t chunk st) chs s) =
      fold (\<lambda>chunk. key_column_pass env t) chs s \<and>
      with_key_column (objs (fold (\<lambda>chunk. key_column_pass env t) chs s) t)"
    by (rule asyncio_wait_fold [where I = "\<lambda>a. with_key_column (objs a t)"])
      (simp_all add: recursively_preparing_table_with_key_column_def table_key_column_pass
        key_column_pass_frame assms)
  moreover have "fold (\<lambda>chunk. key_column_pass env t) chs (key_column_pass env t s) =
      key_column_pass env t s"
    by (induction chs) (simp_all add: key_column_pass_idem)
  ultimately show ?thesis by (cases chs) (simp_all add: key_column_pass_idem)
qed

lemma key_column_step_chunk [chunk_free]:
  "key_column_step (env\<lparr>CHUNK_SIZE := n\<rparr>) = key_column_step env"
  by (simp add: key_column_step_def fun_eq_iff chunk_free
      cong: option.case_cong sum.case_cong prod.case_cong if_cong)

lemma key_column_pass_chunk [chunk_free]:
  "key_column_pass (env\<lparr>CHUNK_SIZE := n\<rparr>) = key_column_pass env"
  by (simp add: key_column_pass_def fun_eq_iff chunk_free)

lemma make_chunks_empty:
  "0 < n \<Longrightarrow> make_chunks xs n = [] \<longleftrightarrow> xs = []"
  by (subst make_chunks.simps) simp

lemma stable_with_key_column:
  "stable env (\<lambda>a b. \<forall>u. with_key_column (objs b u) = with_key_column (objs a u))"
  by (simp add: stable_def update_pks_def set_ready_def set_revert_def)

lemma prepare_tables_with_key_column_state:
  assumes wk: "with_key_column (objs s t)" and n: "0 < n"
  shows "fst (snd (prepare_tables_with_key_column (env\<lparr>CHUNK_SIZE := n\<rparr>) t s)) =
     (case fst (get_table_column_values env t (primary_key (objs s t)) [] None False s) of
        Inl e \<Rightarrow> s
      | Inr S \<Rightarrow>
          set_ready t (if S = {} then s
                       else if iter_pks env S = [] then update_pks t S s
                       else key_column_pass env t (update_pks t S s)))"
proof -
  obtain x y where xy: "get_table_column_values env t (primary_key (objs s t)) [] None False s =
      (x, y)"
    by (cases "get_table_column_values env t (primary_key (objs s t)) [] None False s")
  show ?thesis
  proof (cases x)
    case (Inl e)
    with xy show ?thesis
      by (simp add: prepare_tables_with_key_column_def chunk_free)
  next
    case (Inr S)
    have wk': "with_key_column (objs (update_pks t S s) t)"
      using wk by (simp add: update_pks_def)
    have ch: "fst (asyncio_wait
          (\<lambda>chunk st. recursively_preparing_table_with_key_column (env\<lparr>CHUNK_SIZE := n\<rparr>) t
             chunk st)
          (make_chunks (iter_pks env S) n) (update_pks t S s)) =
        (if iter_pks env S = [] then update_pks t S s
         else key_column_pass env t (update_pks t S s))"
      by (simp add: key_column_chunks [OF wk'] make_chunks_empty [OF n] chunk_free)
    show ?thesis
    proof (cases "S = {}")
      case True
      with xy Inr show ?thesis
        by (simp add: prepare_tables_with_key_column_def chunk_free)
    next
      case False
      with xy Inr ch show ?thesis
        by (auto simp: prepare_tables_with_key_column_def chunk_free split: prod.splits)
    qed
  qed
qed

lemma asyncio_wait_state_cong:
  assumes "\<And>x st. x \<in> set xs \<Longrightarrow> I st \<Longrightarrow>
      fst (snd (f x st)) = fst (snd (g x st)) \<and> I (fst (snd (f x st)))"
    and "I s"
  shows "fst (asyncio_wait f xs s) = fst (asyncio_wait g xs s)"
  using assms
proof (induction xs arbitrary: s)
  case Nil
  then show ?case by simp
next
  case (Cons x xs)
  have one: "fst (snd (f x s)) = fst (snd (g x s)) \<and> I (fst (snd (f x s)))"
    by (rule Cons.prems(1) [of x s]) (simp_all add: Cons.prems(2))
  have rest: "fst (asyncio_wait f xs (fst (snd (f x s)))) =
      fst (asyncio_wait g xs (fst (snd (f x s))))"
  proof (rule Cons.IH)
    fix y st
    assume "y \<in> set xs" "I st"
    then show "fst (snd (f y st)) = fst (snd (g y st)) \<and> I (fst (snd (f y st)))"
      by (intro Cons.prems(1)) simp_all
  next
    show "I (fst (snd (f x s)))" by (rule conjunct2 [OF one])
  qed
  have "fst (asyncio_wait f (x # xs) s) = fst (asyncio_wait f xs (fst (snd (f x s))))"
    by (rule asyncio_wait_Cons_fst)
  also have "\<dots> = fst (asyncio_wait g xs (fst (snd (f x s))))" by (rule rest)
  also have "\<dots> = fst (asyncio_wait g xs (fst (snd (g x s))))"
    by (simp only: conjunct1 [OF one])
  also have "\<dots> = fst (asyncio_wait g (x # xs) s)"
    by (rule asyncio_wait_Cons_fst [symmetric])
  finally show ?case .
qed

lemma key_column_phase_chunk:
  assumes n: "0 < n" and m: "0 < m"
  shows "fst (asyncio_wait (\<lambda>table st. prepare_tables_with_key_column (env\<lparr>CHUNK_SIZE := n\<rparr>)
              table st) (tables_with_key_column env s) s) =
     fst (asyncio_wait (\<lambda>table st. prepare_tables_with_key_column (env\<lparr>CHUNK_SIZE := m\<rparr>)
              table st) (tables_with_key_column env s) s)"
proof (rule asyncio_wait_state_cong
    [where I = "\<lambda>a. \<forall>u. with_key_column (objs a u) = with_key_column (objs s u)"])
  fix t and st :: state
  assume t: "t \<in> set (tables_with_key_column env s)"
    and inv: "\<forall>u. with_key_column (objs st u) = with_key_column (objs s u)"
  from t inv have wk: "with_key_column (objs st t)"
    by (simp add: tables_with_key_column_def)
  have eq: "fst (snd (prepare_tables_with_key_column (env\<lparr>CHUNK_SIZE := n\<rparr>) t st)) =
      fst (snd (prepare_tables_with_key_column (env\<lparr>CHUNK_SIZE := m\<rparr>) t st))"
    by (simp add: prepare_tables_with_key_column_state [OF wk n]
        prepare_tables_with_key_column_state [OF wk m])
  have "\<forall>u. with_key_column
        (objs (fst (snd (prepare_tables_with_key_column (env\<lparr>CHUNK_SIZE := n\<rparr>) t st))) u) =
      with_key_column (objs st u)"
    by (rule prepare_tables_with_key_column_stable
        [where env = "env\<lparr>CHUNK_SIZE := n\<rparr>" and table = t and s = st
           and r = "fst (prepare_tables_with_key_column (env\<lparr>CHUNK_SIZE := n\<rparr>) t st)"
           and l = "snd (snd (prepare_tables_with_key_column (env\<lparr>CHUNK_SIZE := n\<rparr>) t st))",
         OF stable_with_key_column])
      simp
  with inv eq
  show "fst (snd (prepare_tables_with_key_column (env\<lparr>CHUNK_SIZE := n\<rparr>) t st)) =
      fst (snd (prepare_tables_with_key_column (env\<lparr>CHUNK_SIZE := m\<rparr>) t st)) \<and>
    (\<forall>u. with_key_column
        (objs (fst (snd (prepare_tables_with_key_column (env\<lparr>CHUNK_SIZE := n\<rparr>) t st))) u) =
      with_key_column (objs s u))"
    by simp
qed simp

lemma prepare_common_tables_state:
  "fst (snd (prepare_common_tables env s)) =
     (let s1 = fst (asyncio_wait (\<lambda>table st. prepare_tables_with_key_column env table st)
                      (tables_with_key_column env s) s)
      in case sorted_not_transferred env s1 of
           Inl e \<Rightarrow> s1
         | Inr order \<Rightarrow> fst (snd (collect_not_transferred env order s1)))"
  by (simp add: prepare_common_tables_def Let_def split: prod.splits sum.splits)

lemma collect_state:
  "fst (snd (collect env s)) =
     fst (snd (collect_generic_tables_records_ids env
       (fst (snd (prepare_common_tables env (fst (snd (collect_key_table_values env s))))))))"
  by (simp add: collect_def split: prod.splits)

lemma prepare_common_tables_chunk:
  assumes n: "0 < n" and m: "0 < m"
  shows "fst (snd (prepare_common_tables (env\<lparr>CHUNK_SIZE := n\<rparr>) s)) =
     fst (snd (prepare_common_tables (env\<lparr>CHUNK_SIZE := m\<rparr>) s))"
  by (simp only: prepare_common_tables_state chunk_free key_column_phase_chunk [OF n m])

lemma collect_chunk:
  assumes n: "0 < n" and m: "0 < m"
  shows "fst (snd (collect (env\<lparr>CHUNK_SIZE := n\<rparr>) s)) =
     fst (snd (collect (env\<lparr>CHUNK_SIZE := m\<rparr>) s))"
  by (simp only: collect_state chunk_free prepare_common_tables_chunk [OF n m])

text \<open>
  C9. For any surroundings, any state and any two positive chunk sizes, \<^verbatim>\<open>collect\<close>
  ends in the same state: the same \<open>need_transfer_pks\<close>, ready flags and
  \<open>revert_fk_tables\<close> of every table, and the same content-type dict.
\<close>

theorem C9_chunking_invariance:
  assumes "0 < n" and "0 < m"
  shows "fst (snd (collect (env\<lparr>CHUNK_SIZE := n\<rparr>) s)) =
     fst (snd (collect (env\<lparr>CHUNK_SIZE := m\<rparr>) s))"
  using assms by (rule collect_chunk)

text \<open>
  C9, witness: on the staff schema the table with the key column is \<^verbatim>\<open>user\<close>; chunk
  size 1 cuts its keys into two chunks, chunk size 1000000 into one, and \<^verbatim>\<open>collect\<close>
  ends in the same state.
\<close>

theorem C9_chunking_invariance_witness:
  "make_chunks (iter_pks staff_env {1, 2}) 1 = [[1], [2]] \<and>
   make_chunks (iter_pks staff_env {1, 2}) 1000000 = [[1, 2]] \<and>
   tables_with_key_column staff_env staff_state = [''user''] \<and>
   fst (snd (collect (staff_env\<lparr>CHUNK_SIZE := 1\<rparr>) staff_state)) =
     fst (snd (collect (staff_env\<lparr>CHUNK_SIZE := 1000000\<rparr>) staff_state))"
proof -
  have "sorted_list_of_set {1, 2 :: int} = [1, 2]"
    by code_simp
  then have "make_chunks (iter_pks staff_env {1, 2}) 1 = [[1], [2]]"
    and "make_chunks (iter_pks staff_env {1, 2}) 1000000 = [[1, 2]]"
    by (simp_all add: staff_env_def source_env_def make_chunks.simps)
  moreover have "tables_with_key_column staff_env staff_state = [''user'']"
    by (simp add: tables_with_key_column_def staff_env_def source_env_def staff_state_def
        plain_table_def no_table_def)
  ultimately show ?thesis
    using C9_chunking_invariance [of 1 1000000 staff_env staff_state] by simp
qed

end
